theory Spec2Isabelle
  imports Complex_Main "HOL-Library.Log_Nat"
begin

section \<open>The radar dashboard of \<^verbatim>\<open>radar.js\<close>\<close>

text \<open>
  The script keeps one list of targets and reacts to typed commands: \<^verbatim>\<open>scan\<close> replaces
  the list by a random batch, \<^verbatim>\<open>report\<close> exports it as CSV, \<^verbatim>\<open>analyze\<close> logs its fastest
  and closest entry, \<^verbatim>\<open>clear\<close> empties it. The model below is a state record holding the
  script's globals and the parts of the page it writes to, and one function per function
  of the script, taking the state and returning the new one.

  The page is taken as loaded: the map and its marker layer, the canvas, the log area and
  the fields that the script writes to exist (\<^verbatim>\<open>window.onload\<close> has run), so that no
  call into them fails.

  The values of JavaScript that the script computes with are modelled as they are in the
  language: a Number is an IEEE 754 binary64 value (here: the rational it denotes, every
  arithmetic result rounded to the nearest representable one, ties to even), and the
  distance and velocity of a target are the strings that \<^verbatim>\<open>toFixed(1)\<close> returns.
\<close>

subsection \<open>Numbers: binary64 rounding\<close>

text \<open>
  \<open>round_half_even\<close> rounds a rational to the nearest integer, a tie going to the even
  one. For \<open>x > 0\<close>, \<open>binade x\<close> is the exponent \<open>e\<close> with \<open>2^e \<le> x < 2^(e+1)\<close>; a binary64
  value in that range is a multiple of \<open>2^(e-52)\<close> (53 significant bits), and of \<open>2^-1074\<close>
  in the subnormal range. \<open>rnd\<close> is the rounding that every arithmetic operation of
  the language applies to its exact result. Overflow is handled where a Number is made
  from a string (\<open>to_double\<close>); the arithmetic of the script stays below \<open>2^9\<close>.
\<close>

definition round_half_even :: "rat \<Rightarrow> int" where
  "round_half_even y =
     (let n = \<lfloor>y\<rfloor>; d = y - of_int n
      in if d < 1 / 2 then n else if 1 / 2 < d then n + 1 else if even n then n else n + 1)"

definition binade :: "rat \<Rightarrow> int" where
  "binade x = (if 1 \<le> x then bitlen \<lfloor>x\<rfloor> - 1 else - bitlen (\<lceil>1 / x\<rceil> - 1))"

definition ulp :: "rat \<Rightarrow> rat" where
  "ulp x = 2 powi (max (binade \<bar>x\<bar> - 52) (- 1074))"

definition rnd :: "rat \<Rightarrow> rat" where
  "rnd x = (if x = 0 then 0 else of_int (round_half_even (x / ulp x)) * ulp x)"


definition fmul :: "rat \<Rightarrow> rat \<Rightarrow> rat" where
  "fmul a b = rnd (a * b)"

definition fadd :: "rat \<Rightarrow> rat \<Rightarrow> rat" where
  "fadd a b = rnd (a + b)"

definition Math_floor :: "rat \<Rightarrow> int" where
  "Math_floor x = \<lfloor>x\<rfloor>"

text \<open>
  \<^verbatim>\<open>Math.random()\<close> returns a Number that is at least 0 and less than 1. The type
  \<open>unit_double\<close> holds exactly these: the binary64 values of the half-open unit
  interval.
\<close>

typedef unit_double = "{r :: rat. rnd r = r \<and> 0 \<le> r \<and> r < 1}"
  by (rule exI [of _ 0]) (simp add: rnd_def)

setup_lifting type_definition_unit_double

text \<open>
  A Number that a string is converted to, or that \<^verbatim>\<open>Math.max\<close> returns, may also be
  \<^verbatim>\<open>NaN\<close> or infinite. The sign of zero is not tracked.
\<close>

datatype number = NaN | NegInf | Fin rat | PosInf

definition to_double :: "rat \<Rightarrow> number" where
  "to_double x =
     (let y = rnd x
      in if 2 ^ 1024 \<le> y then PosInf else if y \<le> - (2 ^ 1024) then NegInf else Fin y)"

fun number_less :: "number \<Rightarrow> number \<Rightarrow> bool" where
  "number_less NaN _ = False"
| "number_less _ NaN = False"
| "number_less _ NegInf = False"
| "number_less NegInf _ = True"
| "number_less PosInf _ = False"
| "number_less (Fin a) PosInf = True"
| "number_less (Fin a) (Fin b) = (a < b)"

text \<open>
  \<^verbatim>\<open>Math.max(...xs)\<close> starts from \<open>-\<infinity>\<close>, returns \<^verbatim>\<open>NaN\<close> at the first \<^verbatim>\<open>NaN\<close> and otherwise
  keeps the larger value; \<^verbatim>\<open>Math.min\<close> is its mirror image, starting from \<open>+\<infinity>\<close>.
\<close>

fun max_from :: "number \<Rightarrow> number list \<Rightarrow> number" where
  "max_from highest [] = highest"
| "max_from highest (x # xs) =
     (if x = NaN then NaN else max_from (if number_less highest x then x else highest) xs)"

fun min_from :: "number \<Rightarrow> number list \<Rightarrow> number" where
  "min_from lowest [] = lowest"
| "min_from lowest (x # xs) =
     (if x = NaN then NaN else min_from (if number_less x lowest then x else lowest) xs)"

definition Math_max :: "number list \<Rightarrow> number" where
  "Math_max xs = max_from NegInf xs"

definition Math_min :: "number list \<Rightarrow> number" where
  "Math_min xs = min_from PosInf xs"

subsection \<open>Strings\<close>

text \<open>
  A string is a list of characters with codes 0 to 255, read as the code units
  U+0000 to U+00FF. \<open>nat_to_string\<close> is the conversion of a Number whose value
  is a natural number below \<open>10^21\<close> (an id, a length) to a string: its decimal digits.
\<close>

definition digit_char :: "nat \<Rightarrow> char" where
  "digit_char d = char_of (48 + d)"

definition is_digit :: "char \<Rightarrow> bool" where
  "is_digit c = (48 \<le> (of_char c :: nat) \<and> (of_char c :: nat) \<le> 57)"

definition digit_value :: "char \<Rightarrow> nat" where
  "digit_value c = of_char c - 48"

fun nat_to_string :: "nat \<Rightarrow> string" where
  "nat_to_string n =
     (if n < 10 then [digit_char n] else nat_to_string (n div 10) @ [digit_char (n mod 10)])"

definition digits_value :: "string \<Rightarrow> nat" where
  "digits_value s = foldl (\<lambda>a c. 10 * a + digit_value c) 0 s"

text \<open>
  \<^verbatim>\<open>x.toFixed(f)\<close> for a finite \<open>x\<close> below \<open>10^21\<close> in magnitude: \<open>n\<close> is the integer
  nearest to \<open>x * 10^f\<close>, the larger one of two; its digits are padded with zeros on
  the left to \<open>f + 1\<close> places and the point is put before the last \<open>f\<close> of them. (The
  language takes \<open>f\<close> up to 100, and from \<open>10^21\<close> on it switches to exponent notation,
  which is not modelled; the script calls \<^verbatim>\<open>toFixed(1)\<close> on values up to 400.)
\<close>

definition toFixed :: "nat \<Rightarrow> rat \<Rightarrow> string" where
  "toFixed f x0 =
     (let s = (if x0 < 0 then ''-'' else '''');
          x = \<bar>x0\<bar>;
          n = nat \<lfloor>x * 10 ^ f + 1 / 2\<rfloor>;
          m = nat_to_string n;
          m' = (if f \<noteq> 0
                then let k = length m;
                         z = (if k \<le> f then replicate (f + 1 - k) (CHR ''0'') @ m else m);
                         k' = length z
                     in take (k' - f) z @ ''.'' @ drop (k' - f) z
                else m)
      in s @ m')"

text \<open>
  A string is converted to a Number where \<^verbatim>\<open>Math.max\<close> and \<^verbatim>\<open>Math.min\<close> receive one.
  The conversion is modelled on the unsigned decimal literals without exponent
  (\<^verbatim>\<open>12\<close>, \<^verbatim>\<open>12.\<close>, \<^verbatim>\<open>12.5\<close>, \<^verbatim>\<open>.5\<close>), which include every string that
  \<^verbatim>\<open>toFixed\<close> returns for a value that is not negative; every other string is taken
  to \<^verbatim>\<open>NaN\<close> (the language also reads signs, exponents, other bases, surrounding
  blanks, \<^verbatim>\<open>Infinity\<close> and the empty string; the script stores no such string). \<open>decimal_value\<close> is the exact value of such a literal, and the Number is
  the binary64 value nearest to it (the language leaves room beyond the 20th significant
  digit only).
\<close>

definition int_part :: "string \<Rightarrow> string" where
  "int_part s = takeWhile (\<lambda>c. c \<noteq> CHR ''.'') s"

definition point_part :: "string \<Rightarrow> string" where
  "point_part s = dropWhile (\<lambda>c. c \<noteq> CHR ''.'') s"

definition is_decimal :: "string \<Rightarrow> bool" where
  "is_decimal s =
     (list_all is_digit (int_part s) \<and>
      (case point_part s of
         [] \<Rightarrow> int_part s \<noteq> []
       | p # fs \<Rightarrow> list_all is_digit fs \<and> (int_part s \<noteq> [] \<or> fs \<noteq> [])))"

definition decimal_value :: "string \<Rightarrow> rat" where
  "decimal_value s =
     (let fs = tl (point_part s)
      in of_nat (digits_value (int_part s)) + of_nat (digits_value fs) / 10 ^ length fs)"

definition StringToNumber :: "string \<Rightarrow> number" where
  "StringToNumber s = (if is_decimal s then to_double (decimal_value s) else NaN)"

text \<open>
  \<^verbatim>\<open>toLowerCase\<close> on the code units U+0000 to U+00FF: the letters A to Z and the
  accented capitals U+00C0 to U+00DE (but not the multiplication sign U+00D7) move up
  by 32, every other character stays.
\<close>

definition lower_char :: "char \<Rightarrow> char" where
  "lower_char c =
     (let n = (of_char c :: nat)
      in if (65 \<le> n \<and> n \<le> 90) \<or> (192 \<le> n \<and> n \<le> 222 \<and> n \<noteq> 215)
         then char_of (n + 32) else c)"

definition toLowerCase :: "string \<Rightarrow> string" where
  "toLowerCase s = map lower_char s"

definition newline :: char where
  "newline = CHR 0x0A"

subsection \<open>The state\<close>

text \<open>
  A target is the object literal of \<^verbatim>\<open>scan\<close>. Its \<^verbatim>\<open>id\<close> is a small whole Number,
  kept as a natural number; \<^verbatim>\<open>distance\<close> and \<^verbatim>\<open>velocity\<close> are strings; \<^verbatim>\<open>lat\<close>
  and \<^verbatim>\<open>lng\<close> are Numbers.
\<close>

record target =
  id' :: nat
  distance :: string
  velocity :: string
  lat :: rat
  lng :: rat

record marker =
  marker_lat :: rat
  marker_lng :: rat
  popup :: string

text \<open>
  A log message is a template literal: text, and the Numbers put into it. \<open>Num x\<close>
  stands for the decimal text of the Number \<open>x\<close>, which is not expanded.
\<close>

datatype piece = Str string | Num number

type_synonym message = "piece list"

text \<open>
  A sweep is one interval timer of \<^verbatim>\<open>animateRadar\<close> with the variables its callback
  closes over. The canvas shows nothing, or the circle of a radius with the sweep line
  at an angle (in degrees).
\<close>

record sweep =
  angle :: nat
  radius :: nat
  cleared :: bool

datatype picture = Blank | Sweep_line nat nat

record download =
  file_name :: string
  blob_type :: string
  blob_text :: string

text \<open>
  The state: the global \<^verbatim>\<open>targets\<close>; the page (the log area as the list of messages
  appended to it, without their time stamps; the marker layer of the map; the table
  body; the canvas and the number of times a sweep has redrawn it; the five status
  fields; the downloads offered and the alerts shown); the interval timers; and the
  random generator of the engine, as the sequence of the Numbers it returns, with the
  number of calls made so far.
\<close>

record state =
  targets :: "target list"
  logArea :: "message list"
  markerLayer :: "marker list"
  targetTable :: string
  canvas :: picture
  redraws :: nat
  timers :: "sweep list"
  activeTargets :: string
  wind :: string
  weather :: string
  cpuLoad :: string
  temperature :: string
  downloads :: "download list"
  alerts :: "string list"
  random_source :: "nat \<Rightarrow> unit_double"
  random_calls :: nat

subsection \<open>The functions of the script\<close>

definition log' :: "message \<Rightarrow> state \<Rightarrow> state" where
  "log' msg st = st\<lparr>logArea := logArea st @ [msg]\<rparr>"

definition Math_random :: "state \<Rightarrow> rat \<times> state" where
  "Math_random st =
     (Rep_unit_double (random_source st (random_calls st)),
      st\<lparr>random_calls := random_calls st + 1\<rparr>)"

text \<open>
  \<^verbatim>\<open>scan\<close>. The loop test \<^verbatim>\<open>i < 8 + Math.floor(Math.random() * 3)\<close> is evaluated before
  every round, each time with a fresh random Number. A round builds the target from four
  more random Numbers, pushes it and adds its marker.
\<close>

definition new_target :: "nat \<Rightarrow> state \<Rightarrow> target \<times> state" where
  "new_target i st0 =
     (case Math_random st0 of (r1, st1) \<Rightarrow>
      case Math_random st1 of (r2, st2) \<Rightarrow>
      case Math_random st2 of (r3, st3) \<Rightarrow>
      case Math_random st3 of (r4, st4) \<Rightarrow>
        (\<lparr>id' = i + 1,
          distance = toFixed 1 (fmul r1 200),
          velocity = toFixed 1 (fmul r2 400),
          lat = fadd 20 (fmul r3 10),
          lng = fadd 78 (fmul r4 10)\<rparr>, st4))"

definition marker_of :: "target \<Rightarrow> marker" where
  "marker_of t =
     \<lparr>marker_lat = lat t, marker_lng = lng t,
      popup = ''Target #'' @ nat_to_string (id' t) @ ''<br>Vel: '' @ velocity t
        @ '' m/s<br>Dist: '' @ distance t @ '' km''\<rparr>"

definition scan_body :: "nat \<Rightarrow> state \<Rightarrow> state" where
  "scan_body i st =
     (case new_target i st of (t, st1) \<Rightarrow>
        st1\<lparr>targets := targets st1 @ [t], markerLayer := markerLayer st1 @ [marker_of t]\<rparr>)"

function scan_loop :: "nat \<Rightarrow> state \<Rightarrow> state" where
  "scan_loop i st =
     (case Math_random st of (r, st1) \<Rightarrow>
        if int i < 8 + Math_floor (fmul r 3)
        then scan_loop (i + 1) (scan_body i st1)
        else st1)"
  by pat_completeness auto

definition table_row :: "target \<Rightarrow> string" where
  "table_row t =
     ''<tr><td>'' @ nat_to_string (id' t) @ ''</td><td>'' @ distance t @ ''</td><td>''
       @ velocity t @ ''</td></tr>''"

definition updateTable :: "state \<Rightarrow> state" where
  "updateTable st =
     st\<lparr>targetTable := foldl (\<lambda>html t. html @ table_row t) '''' (targets st)\<rparr>"

text \<open>
  \<^verbatim>\<open>animateRadar\<close> starts an interval timer whose callback owns \<^verbatim>\<open>angle = 0\<close> and
  \<^verbatim>\<open>radius = 230\<close>. \<open>sweep_tick k\<close> is one run of the callback of timer \<open>k\<close>: it paints
  the canvas with the line at the current angle, adds 3 to the angle and clears the timer
  when the angle has reached 360. A timer that is cleared does not fire any more.
\<close>

definition animateRadar :: "state \<Rightarrow> state" where
  "animateRadar st = st\<lparr>timers := timers st @ [\<lparr>angle = 0, radius = 230, cleared = False\<rparr>]\<rparr>"

definition sweep_tick :: "nat \<Rightarrow> state \<Rightarrow> state" where
  "sweep_tick k st =
     (if k < length (timers st) \<and> \<not> cleared (timers st ! k)
      then let sw = timers st ! k;
               st1 = st\<lparr>canvas := Sweep_line (radius sw) (angle sw), redraws := redraws st + 1\<rparr>;
               a = angle sw + 3
           in st1\<lparr>timers := (timers st1)[k := sw\<lparr>angle := a, cleared := (360 \<le> a)\<rparr>]\<rparr>
      else st)"

text \<open>
  \<^verbatim>\<open>updateSystemStatus\<close> writes the five status fields, drawing four random Numbers in
  the order of the statements. An index outside the array of weather names would give
  \<^verbatim>\<open>undefined\<close>, which a text field shows as the empty string.
\<close>

definition array_get :: "string list \<Rightarrow> int \<Rightarrow> string" where
  "array_get xs k = (if 0 \<le> k \<and> k < int (length xs) then xs ! nat k else '''')"

definition updateSystemStatus :: "state \<Rightarrow> state" where
  "updateSystemStatus st0 =
     (let st1 = st0\<lparr>activeTargets := nat_to_string (length (targets st0))\<rparr>
      in case Math_random st1 of (r1, st2) \<Rightarrow>
         let st3 = st2\<lparr>wind := toFixed 1 (fadd 10 (fmul r1 20)) @ '' km/h''\<rparr>
         in case Math_random st3 of (r2, st4) \<Rightarrow>
         let st5 = st4\<lparr>weather :=
                     array_get [''Clear'', ''Cloudy'', ''Rainy''] (Math_floor (fmul r2 3))\<rparr>
         in case Math_random st5 of (r3, st6) \<Rightarrow>
         let st7 = st6\<lparr>cpuLoad := toFixed 1 (fadd 30 (fmul r3 60)) @ ''%''\<rparr>
         in case Math_random st7 of (r4, st8) \<Rightarrow>
           st8\<lparr>temperature := toFixed 1 (fadd 25 (fmul r4 10)) @ [CHR 0xB0, CHR ''C'']\<rparr>)"

definition scan :: "state \<Rightarrow> state" where
  "scan st0 =
     (let st1 = log' [Str ''Scanning environment...''] st0;
          st2 = st1\<lparr>targets := []\<rparr>;
          st3 = st2\<lparr>markerLayer := []\<rparr>;
          st4 = scan_loop 0 st3;
          st5 = updateTable st4;
          st6 = animateRadar st5;
          st7 = updateSystemStatus st6
      in log' [Str (nat_to_string (length (targets st7)) @ '' targets detected.'')] st7)"

text \<open>\<^verbatim>\<open>generateReport\<close>: the \<^verbatim>\<open>forEach\<close> appends one row to the header for each target.\<close>

definition csv_header :: string where
  "csv_header = ''ID,Distance(km),Velocity(m/s)'' @ [newline]"

definition csv_row :: "target \<Rightarrow> string" where
  "csv_row t = nat_to_string (id' t) @ '','' @ distance t @ '','' @ velocity t @ [newline]"

definition generateReport :: "state \<Rightarrow> state" where
  "generateReport st =
     (if length (targets st) = 0 then log' [Str ''No targets to report.''] st
      else
        let csv = foldl (\<lambda>csv t. csv @ csv_row t) csv_header (targets st);
            st1 = st\<lparr>downloads := downloads st
                    @ [\<lparr>file_name = ''radar_report.csv'', blob_type = ''text/csv'', blob_text = csv\<rparr>]\<rparr>
        in log' [Str ''Report downloaded as radar_report.csv''] st1)"

text \<open>
  \<^verbatim>\<open>analyze\<close>: \<^verbatim>\<open>Math.max\<close> and \<^verbatim>\<open>Math.min\<close> convert the strings they are given to
  Numbers.
\<close>

definition analyze :: "state \<Rightarrow> state" where
  "analyze st =
     (if length (targets st) = 0 then log' [Str ''No data to analyze.''] st
      else
        let maxSpeed = Math_max (map (\<lambda>t. StringToNumber (velocity t)) (targets st));
            closest = Math_min (map (\<lambda>t. StringToNumber (distance t)) (targets st))
        in log' [Str ''Analysis complete: Fastest '', Num maxSpeed, Str '' m/s, Closest '',
                 Num closest, Str '' km.''] st)"

definition help_text :: string where
  "help_text = ''Available commands:'' @ [newline] @ ''scan - detect targets'' @ [newline]
     @ ''report - download target data'' @ [newline] @ ''analyze - run analytics'' @ [newline]
     @ ''clear - reset logs'' @ [newline] @ ''help - show this message''"

definition showHelp :: "state \<Rightarrow> state" where
  "showHelp st = st\<lparr>alerts := alerts st @ [help_text]\<rparr>"

definition clearLogs :: "state \<Rightarrow> state" where
  "clearLogs st0 =
     (let st1 = st0\<lparr>logArea := []\<rparr>;
          st2 = st1\<lparr>canvas := Blank\<rparr>;
          st3 = st2\<lparr>markerLayer := []\<rparr>;
          st4 = st3\<lparr>targets := []\<rparr>
      in log' [Str ''System reset.''] st4)"

text \<open>
  \<^verbatim>\<open>executeCommand\<close>; the text of the input field is the argument \<open>input\<close>.
\<close>

definition executeCommand :: "string \<Rightarrow> state \<Rightarrow> state" where
  "executeCommand input st =
     (let cmd = toLowerCase input
      in if cmd = ''scan'' then scan st
         else if cmd = ''report'' then generateReport st
         else if cmd = ''analyze'' then analyze st
         else if cmd = ''clear'' then clearLogs st
         else showHelp st)"


subsection \<open>Notions the properties are stated with\<close>

text \<open>
  \<open>one_decimal s\<close>: the string is a decimal numeral with exactly one digit after the
  point, as \<^verbatim>\<open>toFixed(1)\<close> writes it. \<open>scanned t\<close>: the target is as \<^verbatim>\<open>scan\<close> makes
  them. \<open>lines_of\<close> cuts a text into its lines, at the newline characters.
\<close>

definition one_decimal :: "string \<Rightarrow> bool" where
  "one_decimal s =
     (int_part s \<noteq> [] \<and> list_all is_digit (int_part s) \<and>
      (case point_part s of [p, d] \<Rightarrow> is_digit d | _ \<Rightarrow> False))"

definition scanned :: "target \<Rightarrow> bool" where
  "scanned t =
     (one_decimal (distance t) \<and> decimal_value (distance t) \<le> 200 \<and>
      one_decimal (velocity t) \<and> decimal_value (velocity t) \<le> 400)"

definition lines_of :: "string \<Rightarrow> string list" where
  "lines_of s =
     foldr (\<lambda>c ls. if c = newline then [] # ls
                    else case ls of [] \<Rightarrow> [[c]] | l # ls' \<Rightarrow> (c # l) # ls') s []"

text \<open>
  \<open>csv_line t\<close> is the row of a target in the report, without its newline.
  \<open>fields_of\<close> cuts a line at its commas. \<open>shows_one_decimal text unit lo hi\<close>: the
  text is a numeral with one decimal, between \<open>lo\<close> and \<open>hi\<close>, followed by the unit.
\<close>

definition csv_line :: "target \<Rightarrow> string" where
  "csv_line t = nat_to_string (id' t) @ '','' @ distance t @ '','' @ velocity t"

definition fields_of :: "string \<Rightarrow> string list" where
  "fields_of s =
     foldr (\<lambda>c fs. if c = CHR '','' then [] # fs
                    else case fs of [] \<Rightarrow> [[c]] | f # fs' \<Rightarrow> (c # f) # fs') s [[]]"

definition shows_one_decimal :: "string \<Rightarrow> string \<Rightarrow> rat \<Rightarrow> rat \<Rightarrow> bool" where
  "shows_one_decimal text unit lo hi =
     (let n = length text - length unit; v = take n text
      in length unit \<le> length text \<and> drop n text = unit \<and> one_decimal v \<and>
         lo \<le> decimal_value v \<and> decimal_value v \<le> hi)"

text \<open>
  The events of the page are the commands typed and the firings of the interval timers.
\<close>

datatype event = Command string | Tick nat

fun step :: "state \<Rightarrow> event \<Rightarrow> state" where
  "step st (Command input) = executeCommand input st"
| "step st (Tick k) = sweep_tick k st"

definition is_scan :: "event \<Rightarrow> bool" where
  "is_scan e = (case e of Command input \<Rightarrow> toLowerCase input = ''scan'' | Tick k \<Rightarrow> False)"


section \<open>Lemmas\<close>

subsection \<open>Rounding\<close>

lemma round_half_even_of_int: "round_half_even (of_int n) = n"
  by (simp add: round_half_even_def)

lemma round_half_even_cases:
  "round_half_even y = \<lfloor>y\<rfloor> \<and> y - of_int \<lfloor>y\<rfloor> \<le> 1 / 2
   \<or> round_half_even y = \<lfloor>y\<rfloor> + 1 \<and> 1 / 2 \<le> y - of_int \<lfloor>y\<rfloor>"
  by (auto simp: round_half_even_def Let_def)

lemma round_half_even_mono:
  assumes "x \<le> y"
  shows "round_half_even x \<le> round_half_even y"
proof (cases "\<lfloor>x\<rfloor> = \<lfloor>y\<rfloor>")
  case True
  then show ?thesis
    using assms by (auto simp: round_half_even_def Let_def)
next
  case False
  with assms have "\<lfloor>x\<rfloor> + 1 \<le> \<lfloor>y\<rfloor>"
    using floor_mono [OF assms] by linarith
  moreover have "round_half_even x \<le> \<lfloor>x\<rfloor> + 1"
    using round_half_even_cases [of x] by linarith
  moreover have "\<lfloor>y\<rfloor> \<le> round_half_even y"
    using round_half_even_cases [of y] by linarith
  ultimately show ?thesis by linarith
qed

lemma binade_bounds:
  assumes "0 < x"
  shows "2 powi binade x \<le> x \<and> x < 2 powi (binade x + 1)"
proof (cases "1 \<le> x")
  case True
  define n where "n = \<lfloor>x\<rfloor>"
  have n: "1 \<le> n" "of_int n \<le> x" "x < of_int n + 1"
    using True unfolding n_def by (simp add: le_floor_iff, linarith, linarith)
  then have b: "1 \<le> bitlen n" "2 ^ nat (bitlen n - 1) \<le> n" "n < 2 ^ nat (bitlen n)"
    using bitlen_bounds [of n] by (auto simp: bitlen_alt_def)
  have e: "binade x = bitlen n - 1"
    using True by (simp add: binade_def n_def)
  have p1: "(2::rat) powi (bitlen n - 1) = 2 ^ nat (bitlen n - 1)"
    using b(1) by (simp add: power_int_def)
  have "(2::rat) ^ nat (bitlen n - 1) \<le> of_int n"
    using b(2) by (simp only: numeral_power_le_of_int_cancel_iff)
  then have lo: "2 powi (bitlen n - 1) \<le> x"
    using n(2) p1 by linarith
  have "n + 1 \<le> 2 ^ nat (bitlen n)" using b(3) by simp
  then have "(of_int (n + 1) :: rat) \<le> 2 ^ nat (bitlen n)"
    by (simp only: of_int_le_numeral_power_cancel_iff)
  moreover have "(2::rat) powi (bitlen n) = 2 ^ nat (bitlen n)"
    using b(1) by (simp add: power_int_def)
  ultimately have hi: "x < 2 powi (bitlen n)"
    using n(3) by simp
  show ?thesis using lo hi e by simp
next
  case False
  then have x1: "x < 1" by simp
  define m where "m = \<lceil>1 / x\<rceil>"
  have "1 < 1 / x" using assms x1 by (simp add: field_simps)
  then have m: "2 \<le> m" "1 / x \<le> of_int m" "of_int m - 1 < 1 / x"
    unfolding m_def by (simp_all add: le_ceiling_iff less_ceiling_iff) linarith+
  define k where "k = bitlen (m - 1)"
  have b: "1 \<le> k" "2 ^ nat (k - 1) \<le> m - 1" "m - 1 < 2 ^ nat k"
    using bitlen_bounds [of "m - 1"] m(1) by (auto simp: bitlen_alt_def k_def)
  have e: "binade x = - k"
    using False by (simp add: binade_def m_def k_def)
  have "m \<le> 2 ^ nat k" using b(3) by simp
  then have "(of_int m :: rat) \<le> 2 ^ nat k"
    by (simp only: of_int_le_numeral_power_cancel_iff)
  then have "1 / x \<le> 2 ^ nat k" using m(2) by linarith
  then have "1 \<le> 2 ^ nat k * x" using assms by (simp add: field_simps)
  then have "1 / 2 ^ nat k \<le> x" by (simp add: field_simps)
  moreover have "(2::rat) powi (- k) = 1 / 2 ^ nat k"
    using b(1) power_int_minus_divide [of "2::rat" k] by (simp add: power_int_nonneg_exp)
  ultimately have lo: "2 powi (- k) \<le> x" by simp
  have "(2::rat) ^ nat (k - 1) \<le> of_int (m - 1)"
    using b(2) by (simp only: numeral_power_le_of_int_cancel_iff)
  then have "2 ^ nat (k - 1) < 1 / x" using m(3) by (simp only: of_int_diff of_int_1)
  then have "2 ^ nat (k - 1) * x < 1" using assms by (simp add: field_simps)
  then have "x < 1 / 2 ^ nat (k - 1)" by (simp add: field_simps)
  moreover have "(2::rat) powi (- k + 1) = 1 / 2 ^ nat (k - 1)"
    using b(1) power_int_minus_divide [of "2::rat" "k - 1"] by (simp add: power_int_nonneg_exp)
  ultimately have hi: "x < 2 powi (- k + 1)" by simp
  show ?thesis using lo hi e by simp
qed


lemma pow2_less_imp: "(2::rat) powi a < 2 powi b \<Longrightarrow> a < b"
  using power_int_increasing [of b a "2::rat"] by (cases "a < b") auto

lemma binade_less: "0 < x \<Longrightarrow> x < 2 powi e \<Longrightarrow> binade x < e"
  using binade_bounds [of x] pow2_less_imp [of "binade x" e] by linarith

lemma binade_ge: "0 < x \<Longrightarrow> 2 powi e \<le> x \<Longrightarrow> e \<le> binade x"
  using binade_bounds [of x] pow2_less_imp [of e "binade x + 1"] by linarith

lemma binade_mono: "0 < x \<Longrightarrow> x \<le> y \<Longrightarrow> binade x \<le> binade y"
  using binade_bounds [of x] binade_ge [of y "binade x"] by linarith

lemma ulp_pos: "0 < ulp x"
  by (simp add: ulp_def power_int_def)

lemma pow2_int: "0 \<le> k \<Longrightarrow> (2::rat) powi k = of_int (2 ^ nat k)"
  by (simp add: power_int_def)

lemma pow2_split: "(2::rat) powi (a + b) = 2 powi a * 2 powi b"
  by (simp add: power_int_add)

lemma round_half_even_nonneg: "0 \<le> y \<Longrightarrow> 0 \<le> round_half_even y"
  using round_half_even_mono [of 0 y] round_half_even_of_int [of 0] by simp

lemma rnd_nonneg: "0 \<le> x \<Longrightarrow> 0 \<le> rnd x"
  using ulp_pos [of x] by (simp add: rnd_def round_half_even_nonneg)

lemma rnd_mono:
  assumes "0 \<le> x" "x \<le> y"
  shows "rnd x \<le> rnd y"
proof (cases "x = 0")
  case True
  then show ?thesis using rnd_nonneg [of y] assms by (simp add: rnd_def)
next
  case False
  then have x: "0 < x" and y: "0 < y" using assms by simp_all
  define px where "px = max (binade x - 52) (- 1074)"
  define py where "py = max (binade y - 52) (- 1074)"
  have ux: "ulp x = 2 powi px" and uy: "ulp y = 2 powi py"
    using x y by (simp_all add: ulp_def px_def py_def)
  have rx: "rnd x = of_int (round_half_even (x / 2 powi px)) * 2 powi px"
    and ry: "rnd y = of_int (round_half_even (y / 2 powi py)) * 2 powi py"
    using x y ux uy by (simp_all add: rnd_def)
  have pos: "\<And>k. (0::rat) < 2 powi k" by (simp add: power_int_def)
  have le: "px \<le> py"
    using binade_mono [OF x assms(2)] by (simp add: px_def py_def)
  show ?thesis
  proof (cases "px = py")
    case True
    have "x / 2 powi py \<le> y / 2 powi py"
      using assms(2) pos [of py] by (simp add: divide_right_mono)
    then have "round_half_even (x / 2 powi py) \<le> round_half_even (y / 2 powi py)"
      by (rule round_half_even_mono)
    then have "(of_int (round_half_even (x / 2 powi py)) :: rat)
        \<le> of_int (round_half_even (y / 2 powi py))"
      by (simp only: of_int_le_iff)
    then show ?thesis
      using pos [of py] unfolding rx ry True by (simp add: mult_right_mono)
  next
    case False
    with le have lt: "px < py" by simp
    define ey where "ey = binade y"
    have py_eq: "py = ey - 52" and ex: "binade x < ey"
      using lt by (auto simp: px_def py_def ey_def)
    have ylo: "2 powi ey \<le> y" and xhi: "x < 2 powi ey"
      using binade_bounds [OF y] binade_bounds [OF x] ex
        power_int_increasing [of "binade x + 1" ey "2::rat"]
      by (simp_all add: ey_def)
    \<comment> \<open>the power of two between them is a multiple of both units\<close>
    have kx: "0 \<le> ey - px" using lt py_eq by simp
    have "2 powi ey = 2 powi (ey - px) * (2::rat) powi px"
      using pow2_split [of "ey - px" px] by simp
    then have mx: "2 powi ey = of_int (2 ^ nat (ey - px)) * (2::rat) powi px"
      using pow2_int [OF kx] by simp
    have "2 powi ey = 2 powi 52 * (2::rat) powi py"
      using pow2_split [of 52 py] py_eq by simp
    then have my: "2 powi ey = of_int (2 ^ 52) * (2::rat) powi py"
      by simp
    have "x / 2 powi px \<le> of_int (2 ^ nat (ey - px))"
      using xhi pos [of px] unfolding mx by (simp add: field_simps)
    then have "round_half_even (x / 2 powi px) \<le> 2 ^ nat (ey - px)"
      using round_half_even_mono [of "x / 2 powi px" "of_int (2 ^ nat (ey - px))"]
      by (simp only: round_half_even_of_int)
    then have "(of_int (round_half_even (x / 2 powi px)) :: rat) \<le> of_int (2 ^ nat (ey - px))"
      by (simp only: of_int_le_iff)
    then have a: "rnd x \<le> 2 powi ey"
      using pos [of px] unfolding rx mx by (simp only: mult_right_mono less_imp_le)
    have "of_int (2 ^ 52) \<le> y / 2 powi py"
      using ylo pos [of py] unfolding my by (simp add: field_simps)
    then have "2 ^ 52 \<le> round_half_even (y / 2 powi py)"
      using round_half_even_mono [of "of_int (2 ^ 52)" "y / 2 powi py"]
      by (simp only: round_half_even_of_int)
    then have "(of_int (2 ^ 52) :: rat) \<le> of_int (round_half_even (y / 2 powi py))"
      by (simp only: of_int_le_iff)
    then have b: "2 powi ey \<le> rnd y"
      using pos [of py] unfolding ry my by (simp only: mult_right_mono less_imp_le)
    from a b show ?thesis by linarith
  qed
qed

lemma rnd_fix:
  assumes "0 \<le> n" "n < 2 ^ 53" "j \<le> 1074"
  shows "rnd (of_int n / 2 ^ j) = of_int n / 2 ^ j"
proof (cases "n = 0")
  case True
  then show ?thesis by (simp add: rnd_def)
next
  case False
  define c :: rat where "c = of_int n / 2 ^ j"
  have c: "0 < c" using False assms(1) by (simp add: c_def)
  have cj: "c = of_int n * 2 powi (- int j)"
    by (simp add: c_def power_int_minus_divide)
  have "(of_int n :: rat) < 2 ^ 53"
    using assms(2) by (simp only: of_int_less_numeral_power_cancel_iff)
  then have "c < 2 powi 53 * 2 powi (- int j)"
    unfolding cj by (simp add: power_int_def)
  then have "c < 2 powi (53 - int j)"
    using pow2_split [of 53 "- int j"] by simp
  then have e: "binade c < 53 - int j" using c by (rule binade_less [rotated])
  define p where "p = max (binade c - 52) (- 1074)"
  have p: "0 \<le> - int j - p" using e assms(3) by (simp add: p_def)
  have u: "ulp c = 2 powi p" using c by (simp add: ulp_def p_def)
  have "2 powi (- int j) = 2 powi (- int j - p) * (2::rat) powi p"
    using pow2_split [of "- int j - p" p] by simp
  then have "c = of_int n * of_int (2 ^ nat (- int j - p)) * 2 powi p"
    unfolding cj using pow2_int [OF p] by simp
  then have m: "c = of_int (n * 2 ^ nat (- int j - p)) * 2 powi p"
    by simp
  have "c / 2 powi p = of_int (n * 2 ^ nat (- int j - p))"
    by (subst m) (simp add: power_int_def)
  then have "round_half_even (c / 2 powi p) = n * 2 ^ nat (- int j - p)"
    by (simp only: round_half_even_of_int)
  then have "rnd c = c"
    using c u m by (simp add: rnd_def)
  then show ?thesis by (simp only: c_def)
qed

lemma rnd_one_half_le:
  assumes "rnd r = r" "0 \<le> r" "r < 1"
  shows "r \<le> 1 - 1 / 2 ^ 53"
proof (cases "r < 1 / 2")
  case True
  then show ?thesis by simp
next
  case False
  then have r: "0 < r" "1 / 2 \<le> r" by simp_all
  have "r < 2 powi 0" using assms(3) by simp
  then have "binade r < 0" using r(1) by (rule binade_less [rotated])
  moreover have "- 1 \<le> binade r"
    using binade_ge [of r "- 1"] r by simp
  ultimately have e: "binade r = - 1" by simp
  have u: "ulp r = 1 / 2 ^ 53"
    using r(1) e power_int_minus_divide [of "2::rat" 53] by (simp add: ulp_def)
  define k where "k = round_half_even (r / ulp r)"
  have "rnd r = of_int k * ulp r"
    using r(1) by (simp add: rnd_def k_def)
  then have rk: "r = of_int k / 2 ^ 53"
    using assms(1) u by simp
  then have "(of_int k :: rat) < 2 ^ 53" using assms(3) by simp
  then have "k < 2 ^ 53" by (simp only: of_int_less_numeral_power_cancel_iff)
  then have "k \<le> 2 ^ 53 - 1" by simp
  then have "(of_int k :: rat) \<le> of_int (2 ^ 53 - 1)" by (simp only: of_int_le_iff)
  then have "(of_int k :: rat) \<le> 2 ^ 53 - 1" by simp
  then show ?thesis by (subst rk) (simp add: field_simps)
qed

lemma round_half_even_below: "y < of_int n + 1 / 2 \<Longrightarrow> round_half_even y \<le> n"
proof -
  assume a: "y < of_int n + 1 / 2"
  then have "y < of_int (n + 1)" by simp
  then have "\<lfloor>y\<rfloor> < n + 1" by (simp only: floor_less_iff)
  then have f: "\<lfloor>y\<rfloor> \<le> n" by simp
  show ?thesis
  proof (cases "\<lfloor>y\<rfloor> = n")
    case True
    then have "y - of_int \<lfloor>y\<rfloor> < 1 / 2" using a by simp
    then show ?thesis using True by (simp add: round_half_even_def)
  next
    case False
    then have "\<lfloor>y\<rfloor> + 1 \<le> n" using f by simp
    then show ?thesis using round_half_even_cases [of y] by linarith
  qed
qed

lemma rnd_below_three:
  assumes "0 \<le> x" "x \<le> 3 - 3 / 2 ^ 53"
  shows "rnd x < 3"
proof -
  define c :: rat where "c = 3 - 3 / 2 ^ 53"
  have c: "0 < c" "2 powi 1 \<le> c" "c < 2 powi 2" by (simp_all add: c_def)
  have "binade c < 2" using c(1) c(3) by (rule binade_less)
  moreover have "1 \<le> binade c" using c(1) c(2) by (rule binade_ge)
  ultimately have e: "binade c = 1" by simp
  have u: "ulp c = 1 / 2 ^ 51"
    using c(1) e power_int_minus_divide [of "2::rat" 51] by (simp add: ulp_def)
  have "c / ulp c < of_int (3 * 2 ^ 51 - 1) + 1 / 2"
    unfolding u by (simp add: c_def)
  then have "round_half_even (c / ulp c) \<le> 3 * 2 ^ 51 - 1"
    by (rule round_half_even_below)
  then have "(of_int (round_half_even (c / ulp c)) :: rat) \<le> of_int (3 * 2 ^ 51 - 1)"
    by (simp only: of_int_le_iff)
  then have "of_int (round_half_even (c / ulp c)) * ulp c \<le> of_int (3 * 2 ^ 51 - 1) * ulp c"
    using ulp_pos [of c] by (simp only: mult_right_mono less_imp_le)
  moreover have "rnd c = of_int (round_half_even (c / ulp c)) * ulp c"
    using c(1) by (simp add: rnd_def)
  ultimately have "rnd c \<le> of_int (3 * 2 ^ 51 - 1) * (1 / 2 ^ 51)"
    by (simp only: u)
  then have "rnd c < 3" by simp
  moreover have "rnd x \<le> rnd c" using assms unfolding c_def by (rule rnd_mono)
  ultimately show ?thesis by linarith
qed

lemma rnd_le_int: "0 \<le> x \<Longrightarrow> x \<le> of_nat n \<Longrightarrow> n < 2 ^ 53 \<Longrightarrow> rnd x \<le> of_nat n"
  using rnd_mono [of x "of_nat n"] rnd_fix [of "int n" 0] by simp

lemma rnd_ge_int: "of_nat n \<le> x \<Longrightarrow> n < 2 ^ 53 \<Longrightarrow> of_nat n \<le> rnd x"
  using rnd_mono [of "of_nat n" x] rnd_fix [of "int n" 0] by simp

lemma Rep_unit_double_bounds:
  "0 \<le> Rep_unit_double u" "Rep_unit_double u \<le> 1 - 1 / 2 ^ 53" "Rep_unit_double u < 1"
  using Rep_unit_double [of u] rnd_one_half_le [of "Rep_unit_double u"] by simp_all

lemma fmul_random_bounds:
  assumes "n < 2 ^ 53"
  shows "0 \<le> fmul (Rep_unit_double u) (of_nat n)"
    and "fmul (Rep_unit_double u) (of_nat n) \<le> of_nat n"
proof -
  have "0 \<le> Rep_unit_double u * of_nat n"
    using Rep_unit_double_bounds(1) [of u] by simp
  moreover have "Rep_unit_double u * of_nat n \<le> of_nat n"
    using mult_right_mono [of "Rep_unit_double u" 1 "of_nat n"] Rep_unit_double_bounds(3) [of u]
    by simp
  ultimately show "0 \<le> fmul (Rep_unit_double u) (of_nat n)"
    and "fmul (Rep_unit_double u) (of_nat n) \<le> of_nat n"
    using assms by (simp_all add: fmul_def rnd_nonneg rnd_le_int)
qed

lemma floor_random_times_3:
  "0 \<le> Math_floor (fmul (Rep_unit_double u) 3)" "Math_floor (fmul (Rep_unit_double u) 3) \<le> 2"
proof -
  have a: "0 \<le> Rep_unit_double u * 3" "Rep_unit_double u * 3 \<le> 3 - 3 / 2 ^ 53"
    using Rep_unit_double_bounds [of u] by simp_all
  then have "rnd (Rep_unit_double u * 3) < 3" by (rule rnd_below_three)
  then show "Math_floor (fmul (Rep_unit_double u) 3) \<le> 2"
    by (simp add: Math_floor_def fmul_def floor_le_iff)
  show "0 \<le> Math_floor (fmul (Rep_unit_double u) 3)"
    using a(1) by (simp add: Math_floor_def fmul_def rnd_nonneg)
qed

subsection \<open>The loop of \<^verbatim>\<open>scan\<close> terminates\<close>

text \<open>
  The bound of the loop test is at most 10, whatever the random Numbers are: the product
  of a Number below 1 and 3 is rounded to a Number below 3.
\<close>

termination scan_loop
proof (relation "measure (\<lambda>(i, st). 10 - i)")
  show "wf (measure (\<lambda>(i, st). 10 - i))" by simp
next
  fix i :: nat and st st1 :: state and r :: rat
  assume "(r, st1) = Math_random st" and "int i < 8 + Math_floor (fmul r 3)"
  then have "int i < 8 + Math_floor (fmul (Rep_unit_double (random_source st (random_calls st))) 3)"
    by (simp add: Math_random_def)
  then have "i < 10"
    using floor_random_times_3(2) [of "random_source st (random_calls st)"] by linarith
  then show "((i + 1, scan_body i st1), i, st) \<in> measure (\<lambda>(i, st). 10 - i)"
    by simp
qed

declare scan_loop.simps [simp del]
declare nat_to_string.simps [simp del]

text \<open>
  The Number that an engine makes from 53 random bits, \<open>k / 2^53\<close>, is a value of
  \<open>unit_double\<close>.
\<close>

definition bits_value :: "int \<Rightarrow> rat" where
  "bits_value k = of_int (k mod 2 ^ 53) / 2 ^ 53"

lemma bits_value_unit: "rnd (bits_value k) = bits_value k \<and> 0 \<le> bits_value k \<and> bits_value k < 1"
proof -
  have m: "0 \<le> k mod 2 ^ 53" "k mod 2 ^ 53 < 2 ^ 53" by simp_all
  then have "rnd (of_int (k mod 2 ^ 53) / 2 ^ 53) = of_int (k mod 2 ^ 53) / 2 ^ 53"
    by (intro rnd_fix) simp_all
  moreover have "(of_int (k mod 2 ^ 53) :: rat) < 2 ^ 53"
    using m(2) by (simp only: of_int_less_numeral_power_cancel_iff)
  then have "bits_value k < 1"
    unfolding bits_value_def by (simp only: divide_less_eq_1_pos zero_less_numeral zero_less_power)
  ultimately show ?thesis
    by (simp add: bits_value_def)
qed

lift_definition unit_double_of_bits :: "int \<Rightarrow> unit_double" is bits_value
  by (rule bits_value_unit)


subsection \<open>Rounding at work\<close>

text \<open>
  Three values computed with the definitions above. The Number of the numeral \<^verbatim>\<open>0.1\<close>
  is not one tenth. The Number next below 1/3, multiplied by 3, gives exactly 1, and the
  Number \<open>6004799503160661 / 2^53\<close>, which is below 2/3, multiplied by 3 gives exactly
  2: a product is rounded before \<^verbatim>\<open>Math.floor\<close> sees it.
\<close>

lemma rnd_in_binade:
  assumes "0 < x" "2 powi e \<le> x" "x < 2 powi (e + 1)" "- 1022 \<le> e"
  shows "rnd x = of_int (round_half_even (x / 2 powi (e - 52))) * 2 powi (e - 52)"
proof -
  have "binade x = e"
    using binade_ge [OF assms(1,2)] binade_less [OF assms(1,3)] by simp
  then have "ulp x = 2 powi (e - 52)"
    using assms(1,4) by (simp add: ulp_def)
  then show ?thesis using assms(1) by (simp add: rnd_def)
qed

lemma rnd_one_tenth: "rnd (1 / 10) = 3602879701896397 / 2 ^ 55"
proof -
  have "rnd (1 / 10) = of_int (round_half_even ((1 / 10) / 2 powi (- 4 - 52))) * 2 powi (- 4 - 52)"
    by (rule rnd_in_binade) (simp_all add: power_int_minus_divide)
  also have "(1 / 10) / 2 powi (- 4 - 52) = (72057594037927936 / 10 :: rat)"
    by (simp add: power_int_minus_divide)
  also have "round_half_even (72057594037927936 / 10) = 7205759403792794"
  proof -
    have "\<lfloor>72057594037927936 / 10 :: rat\<rfloor> = 7205759403792793"
      by (rule floor_unique) simp_all
    then show ?thesis by (simp add: round_half_even_def Let_def)
  qed
  finally show ?thesis by (simp add: power_int_minus_divide)
qed

lemma below_one_third_times_3:
  "rnd (6004799503160661 / 2 ^ 54) = 6004799503160661 / 2 ^ 54"
  "6004799503160661 / 2 ^ 54 < (1 / 3 :: rat)"
  "Math_floor (fmul (6004799503160661 / 2 ^ 54) 3) = 1"
proof -
  show "rnd (6004799503160661 / 2 ^ 54) = 6004799503160661 / 2 ^ 54"
    using rnd_fix [of 6004799503160661 54] by simp
  show "6004799503160661 / 2 ^ 54 < (1 / 3 :: rat)" by simp
  have "rnd (6004799503160661 / 2 ^ 54 * 3)
      = of_int (round_half_even ((6004799503160661 / 2 ^ 54 * 3) / 2 powi (- 1 - 52)))
          * 2 powi (- 1 - 52)"
    by (rule rnd_in_binade) (simp_all add: power_int_minus_divide)
  also have "(6004799503160661 / 2 ^ 54 * 3) / 2 powi (- 1 - 52) = (18014398509481983 / 2 :: rat)"
    by (simp add: power_int_minus_divide)
  also have "round_half_even (18014398509481983 / 2) = 9007199254740992"
  proof -
    have "\<lfloor>18014398509481983 / 2 :: rat\<rfloor> = 9007199254740991"
      by (rule floor_unique) simp_all
    then show ?thesis by (simp add: round_half_even_def Let_def)
  qed
  finally have "rnd (6004799503160661 / 2 ^ 54 * 3) = 1"
    by (simp add: power_int_minus_divide)
  then show "Math_floor (fmul (6004799503160661 / 2 ^ 54) 3) = 1"
    by (simp add: Math_floor_def fmul_def)
qed

lemma below_two_thirds_times_3:
  "Rep_unit_double (unit_double_of_bits 6004799503160661) = 6004799503160661 / 2 ^ 53"
  "Rep_unit_double (unit_double_of_bits 6004799503160661) < 2 / 3"
  "Math_floor (fmul (Rep_unit_double (unit_double_of_bits 6004799503160661)) 3) = 2"
proof -
  show r: "Rep_unit_double (unit_double_of_bits 6004799503160661) = 6004799503160661 / 2 ^ 53"
    by (simp add: unit_double_of_bits.rep_eq bits_value_def)
  show "Rep_unit_double (unit_double_of_bits 6004799503160661) < 2 / 3"
    unfolding r by simp
  have "rnd (6004799503160661 / 2 ^ 53 * 3)
      = of_int (round_half_even ((6004799503160661 / 2 ^ 53 * 3) / 2 powi (0 - 52)))
          * 2 powi (0 - 52)"
    by (rule rnd_in_binade) (simp_all add: power_int_minus_divide)
  also have "(6004799503160661 / 2 ^ 53 * 3) / 2 powi (0 - 52) = (18014398509481983 / 2 :: rat)"
    by (simp add: power_int_minus_divide)
  also have "round_half_even (18014398509481983 / 2) = 9007199254740992"
  proof -
    have "\<lfloor>18014398509481983 / 2 :: rat\<rfloor> = 9007199254740991"
      by (rule floor_unique) simp_all
    then show ?thesis by (simp add: round_half_even_def Let_def)
  qed
  finally have "rnd (6004799503160661 / 2 ^ 53 * 3) = 2"
    by (simp add: power_int_minus_divide)
  then show "Math_floor (fmul (Rep_unit_double (unit_double_of_bits 6004799503160661)) 3) = 2"
    unfolding r by (simp add: Math_floor_def fmul_def)
qed


subsection \<open>Digits and decimal numerals\<close>

lemma digit_char_0: "digit_char 0 = CHR ''0''"
  by (rule of_char_eqI [where ?'a = nat]) (simp add: digit_char_def)

lemma of_char_digit_char: "d < 10 \<Longrightarrow> (of_char (digit_char d) :: nat) = 48 + d"
  by (simp add: digit_char_def)

lemma is_digit_digit_char: "d < 10 \<Longrightarrow> is_digit (digit_char d)"
  by (simp add: is_digit_def of_char_digit_char)

lemma digit_value_digit_char: "d < 10 \<Longrightarrow> digit_value (digit_char d) = d"
  by (simp add: digit_value_def of_char_digit_char)

lemma is_digit_not_point: "is_digit c \<Longrightarrow> c \<noteq> CHR ''.''"
  by (auto simp: is_digit_def)

lemma is_digit_not_newline: "is_digit c \<Longrightarrow> c \<noteq> newline"
  by (auto simp: is_digit_def newline_def)

lemma is_digit_not_comma: "is_digit c \<Longrightarrow> c \<noteq> CHR '',''"
  by (auto simp: is_digit_def)

lemma nat_to_string_digits: "list_all is_digit (nat_to_string n)"
proof (induction n rule: nat_to_string.induct)
  case (1 n)
  show ?case
  proof (cases "n < 10")
    case True
    then show ?thesis by (subst nat_to_string.simps) (simp add: is_digit_digit_char)
  next
    case False
    then show ?thesis
      using "1" by (subst nat_to_string.simps) (simp add: is_digit_digit_char)
  qed
qed

lemma nat_to_string_nonempty: "nat_to_string n \<noteq> []"
  by (subst nat_to_string.simps) simp

lemma digits_value_single: "digits_value [c] = digit_value c"
  by (simp add: digits_value_def)

lemma digits_value_snoc: "digits_value (s @ [c]) = 10 * digits_value s + digit_value c"
  by (simp add: digits_value_def)

lemma digits_value_nat_to_string: "digits_value (nat_to_string n) = n"
proof (induction n rule: nat_to_string.induct)
  case (1 n)
  show ?case
  proof (cases "n < 10")
    case True
    then show ?thesis
      by (subst nat_to_string.simps) (simp add: digits_value_def digit_value_digit_char)
  next
    case False
    then have "digits_value (nat_to_string (n div 10)) = n div 10" using "1" by simp
    then show ?thesis
      using False
      by (subst nat_to_string.simps) (simp add: digits_value_snoc digit_value_digit_char)
  qed
qed

text \<open>What \<^verbatim>\<open>toFixed(1)\<close> writes for a value that is not negative.\<close>

lemma toFixed_1:
  assumes "0 \<le> x"
  shows "toFixed 1 x =
    nat_to_string (nat \<lfloor>x * 10 + 1 / 2\<rfloor> div 10) @ ''.'' @ [digit_char (nat \<lfloor>x * 10 + 1 / 2\<rfloor> mod 10)]"
proof -
  define n where "n = nat \<lfloor>x * 10 + 1 / 2\<rfloor>"
  have x: "\<not> x < 0" "\<bar>x\<bar> = x" using assms by simp_all
  show ?thesis
  proof (cases "n < 10")
    case True
    have z: "nat_to_string 0 = ''0''"
      by (subst nat_to_string.simps) (simp add: digit_char_0)
    from True have m: "nat_to_string n = [digit_char n]"
      by (simp add: nat_to_string.simps [of n])
    show ?thesis
      using True x by (simp add: toFixed_def Let_def n_def [symmetric] m z)
  next
    case False
    then have m: "nat_to_string n = nat_to_string (n div 10) @ [digit_char (n mod 10)]"
      by (subst nat_to_string.simps) simp
    show ?thesis
      using x nat_to_string_nonempty [of "n div 10"]
      by (simp add: toFixed_def Let_def n_def [symmetric] m)
  qed
qed

lemma int_part_decimal:
  "list_all is_digit ds \<Longrightarrow> int_part (ds @ CHR ''.'' # fs) = ds"
  by (simp add: int_part_def list_all_iff is_digit_not_point)

lemma point_part_decimal:
  "list_all is_digit ds \<Longrightarrow> point_part (ds @ CHR ''.'' # fs) = CHR ''.'' # fs"
  by (simp add: point_part_def list_all_iff is_digit_not_point)

lemma one_decimal_toFixed: "0 \<le> x \<Longrightarrow> one_decimal (toFixed 1 x)"
  using toFixed_1 [of x]
  by (simp add: one_decimal_def int_part_decimal point_part_decimal
      nat_to_string_digits nat_to_string_nonempty is_digit_digit_char)

lemma decimal_value_toFixed:
  assumes "0 \<le> x"
  shows "decimal_value (toFixed 1 x) = of_nat (nat \<lfloor>x * 10 + 1 / 2\<rfloor>) / 10"
proof -
  define n where "n = nat \<lfloor>x * 10 + 1 / 2\<rfloor>"
  have "decimal_value (toFixed 1 x) = of_nat (n div 10) + of_nat (n mod 10) / 10"
    using assms toFixed_1 [of x]
    by (simp add: decimal_value_def int_part_decimal point_part_decimal
        nat_to_string_digits digits_value_nat_to_string digits_value_single
        digit_value_digit_char n_def [symmetric])
  also have "\<dots> = (of_nat (10 * (n div 10) + n mod 10) :: rat) / 10"
    by (simp only: of_nat_add of_nat_mult) (simp add: field_simps)
  also have "\<dots> = of_nat n / 10" by simp
  finally show ?thesis by (simp only: n_def)
qed

lemma one_decimal_is_decimal: "one_decimal s \<Longrightarrow> is_decimal s"
  by (auto simp: one_decimal_def is_decimal_def list_all_iff split: list.splits)

lemma one_decimal_chars:
  assumes "one_decimal s" "c \<in> set s"
  shows "is_digit c \<or> c = CHR ''.''"
proof -
  have s: "s = int_part s @ point_part s"
    by (simp add: int_part_def point_part_def)
  obtain d where p: "point_part s = [CHR ''.'', d]" "is_digit d"
  proof -
    from assms(1) obtain p d where pd: "point_part s = [p, d]" "is_digit d"
      by (auto simp: one_decimal_def split: list.splits)
    then have "p = CHR ''.''"
      using hd_dropWhile [of "\<lambda>c. c \<noteq> CHR ''.''" s] by (simp add: point_part_def)
    with pd show ?thesis using that by simp
  qed
  have "c \<in> set (int_part s) \<or> c \<in> set (point_part s)"
    using assms(2) by (subst (asm) s) simp
  then show ?thesis
    using assms(1) p by (auto simp: one_decimal_def list_all_iff)
qed

text \<open>The value that \<^verbatim>\<open>toFixed(1)\<close> writes stays within whole bounds of the Number.\<close>

lemma toFixed_bounds:
  assumes "of_nat lo \<le> x" "x \<le> of_nat hi"
  shows "of_nat lo \<le> decimal_value (toFixed 1 x)" "decimal_value (toFixed 1 x) \<le> of_nat hi"
proof -
  have x: "0 \<le> x" using assms(1) of_nat_0_le_iff [of lo, where ?'a = rat] by linarith
  have "of_int (int (10 * lo)) \<le> x * 10 + 1 / 2" using assms(1) by simp
  then have "int (10 * lo) \<le> \<lfloor>x * 10 + 1 / 2\<rfloor>" by (simp only: le_floor_iff)
  then have "10 * lo \<le> nat \<lfloor>x * 10 + 1 / 2\<rfloor>" by simp
  then have "(of_nat (10 * lo) :: rat) \<le> of_nat (nat \<lfloor>x * 10 + 1 / 2\<rfloor>)"
    by (simp only: of_nat_le_iff)
  then show "of_nat lo \<le> decimal_value (toFixed 1 x)"
    using x decimal_value_toFixed [of x] by simp
  have "x * 10 + 1 / 2 < of_int (int (10 * hi) + 1)" using assms(2) by simp
  then have "\<lfloor>x * 10 + 1 / 2\<rfloor> < int (10 * hi) + 1" by (simp only: floor_less_iff)
  then have "nat \<lfloor>x * 10 + 1 / 2\<rfloor> \<le> 10 * hi" by simp
  then have "(of_nat (nat \<lfloor>x * 10 + 1 / 2\<rfloor>) :: rat) \<le> of_nat (10 * hi)"
    by (simp only: of_nat_le_iff)
  then show "decimal_value (toFixed 1 x) \<le> of_nat hi"
    using x decimal_value_toFixed [of x] by simp
qed


subsection \<open>What the functions leave alone\<close>

lemma log'_fields [simp]:
  "targets (log' m st) = targets st"
  "downloads (log' m st) = downloads st"
  "logArea (log' m st) = logArea st @ [m]"
  "timers (log' m st) = timers st"
  "redraws (log' m st) = redraws st"
  "activeTargets (log' m st) = activeTargets st"
  "wind (log' m st) = wind st"
  "weather (log' m st) = weather st"
  "cpuLoad (log' m st) = cpuLoad st"
  "temperature (log' m st) = temperature st"
  by (simp_all add: log'_def)

lemma Math_random_eq:
  "Math_random st = (r, st1) \<Longrightarrow>
     r = Rep_unit_double (random_source st (random_calls st)) \<and>
     st1 = st\<lparr>random_calls := random_calls st + 1\<rparr>"
  by (auto simp: Math_random_def)

lemma updateTable_fields [simp]:
  "targets (updateTable st) = targets st"
  "random_source (updateTable st) = random_source st"
  "random_calls (updateTable st) = random_calls st"
  by (simp_all add: updateTable_def)

lemma animateRadar_fields [simp]:
  "targets (animateRadar st) = targets st"
  "timers (animateRadar st) = timers st @ [\<lparr>angle = 0, radius = 230, cleared = False\<rparr>]"
  "redraws (animateRadar st) = redraws st"
  "random_source (animateRadar st) = random_source st"
  "random_calls (animateRadar st) = random_calls st"
  by (simp_all add: animateRadar_def)

lemma updateSystemStatus_targets [simp]: "targets (updateSystemStatus st) = targets st"
  by (simp add: updateSystemStatus_def Math_random_def Let_def)

lemma sweep_tick_targets [simp]: "targets (sweep_tick k st) = targets st"
  by (simp add: sweep_tick_def Let_def)

lemma showHelp_targets [simp]: "targets (showHelp st) = targets st"
  by (simp add: showHelp_def)

lemma generateReport_targets: "targets (generateReport st) = targets st"
  by (simp add: generateReport_def Let_def)

lemma analyze_targets: "targets (analyze st) = targets st"
  by (simp add: analyze_def Let_def)

lemma clearLogs_targets: "targets (clearLogs st) = []"
  by (simp add: clearLogs_def Let_def)

subsection \<open>The loop of \<^verbatim>\<open>scan\<close>\<close>

lemma new_target_id: "id' (fst (new_target i st)) = i + 1"
  by (simp add: new_target_def Math_random_def)

lemma new_target_scanned: "scanned (fst (new_target i st))"
proof -
  obtain u v where d: "distance (fst (new_target i st)) = toFixed 1 (fmul (Rep_unit_double u) 200)"
    and v: "velocity (fst (new_target i st)) = toFixed 1 (fmul (Rep_unit_double v) 400)"
    by (simp add: new_target_def Math_random_def)
  have a: "0 \<le> fmul (Rep_unit_double u) 200" "fmul (Rep_unit_double u) 200 \<le> 200"
    using fmul_random_bounds [of 200 u] by simp_all
  have b: "0 \<le> fmul (Rep_unit_double v) 400" "fmul (Rep_unit_double v) 400 \<le> 400"
    using fmul_random_bounds [of 400 v] by simp_all
  have "decimal_value (toFixed 1 (fmul (Rep_unit_double u) 200)) \<le> 200"
    using toFixed_bounds(2) [of 0 "fmul (Rep_unit_double u) 200" 200] a by simp
  moreover have "decimal_value (toFixed 1 (fmul (Rep_unit_double v) 400)) \<le> 400"
    using toFixed_bounds(2) [of 0 "fmul (Rep_unit_double v) 400" 400] b by simp
  ultimately show ?thesis
    unfolding scanned_def d v using a(1) b(1) by (simp only: one_decimal_toFixed simp_thms)
qed

lemma new_target_targets: "targets (snd (new_target i st)) = targets st"
  by (simp add: new_target_def Math_random_def)

lemma scan_body_targets: "targets (scan_body i st) = targets st @ [fst (new_target i st)]"
  using new_target_targets [of i st] by (cases "new_target i st") (simp add: scan_body_def)

lemma scan_loop_unfold:
  assumes "Math_random st = (r, st1)"
  shows "scan_loop i st =
    (if int i < 8 + Math_floor (fmul r 3) then scan_loop (i + 1) (scan_body i st1) else st1)"
  using assms by (subst scan_loop.simps) simp

lemma scan_loop_ids:
  "\<exists>n. i \<le> n \<and> (i \<le> 8 \<longrightarrow> 8 \<le> n) \<and> (i \<le> 10 \<longrightarrow> n \<le> 10) \<and>
     map id' (targets (scan_loop i st)) = map id' (targets st) @ [Suc i ..< Suc n]"
proof (induction i st rule: scan_loop.induct)
  case (1 i st)
  obtain r st1 where m: "Math_random st = (r, st1)" by (cases "Math_random st")
  then have r: "r = Rep_unit_double (random_source st (random_calls st))"
    and st1: "targets st1 = targets st"
    using Math_random_eq [OF m] by simp_all
  have f: "0 \<le> Math_floor (fmul r 3)" "Math_floor (fmul r 3) \<le> 2"
    unfolding r by (rule floor_random_times_3)+
  show ?case
  proof (cases "int i < 8 + Math_floor (fmul r 3)")
    case True
    from "1.IH" [OF m [symmetric] True]
    obtain n where n: "i + 1 \<le> n" "i + 1 \<le> 8 \<longrightarrow> 8 \<le> n" "i + 1 \<le> 10 \<longrightarrow> n \<le> 10"
      "map id' (targets (scan_loop (i + 1) (scan_body i st1)))
        = map id' (targets (scan_body i st1)) @ [Suc (i + 1) ..< Suc n]"
      by blast
    have i: "i < 10" using True f(2) by linarith
    have "map id' (targets (scan_body i st1)) = map id' (targets st) @ [Suc i]"
      by (simp add: scan_body_targets new_target_id st1)
    moreover have "[Suc i] @ [Suc (i + 1) ..< Suc n] = [Suc i ..< Suc n]"
      using n(1) by (simp add: upt_conv_Cons)
    ultimately have "map id' (targets (scan_loop i st)) = map id' (targets st) @ [Suc i ..< Suc n]"
      using n(4) True by (simp add: scan_loop_unfold [OF m])
    moreover have "i \<le> n" "i \<le> 8 \<longrightarrow> 8 \<le> n" "i \<le> 10 \<longrightarrow> n \<le> 10"
      using n(1-3) i by linarith+
    ultimately show ?thesis by blast
  next
    case False
    then have "8 \<le> i" using f(1) by linarith
    moreover have "map id' (targets (scan_loop i st)) = map id' (targets st) @ [Suc i ..< Suc i]"
      using False by (simp add: scan_loop_unfold [OF m] st1)
    ultimately show ?thesis by (intro exI [of _ i]) simp
  qed
qed

lemma scan_loop_scanned:
  "list_all scanned (targets st) \<Longrightarrow> list_all scanned (targets (scan_loop i st))"
proof (induction i st rule: scan_loop.induct)
  case (1 i st)
  obtain r st1 where m: "Math_random st = (r, st1)" by (cases "Math_random st")
  then have st1: "targets st1 = targets st"
    using Math_random_eq [OF m] by simp
  show ?case
  proof (cases "int i < 8 + Math_floor (fmul r 3)")
    case True
    have "list_all scanned (targets (scan_body i st1))"
      using "1.prems" by (simp add: scan_body_targets st1 new_target_scanned)
    then have "list_all scanned (targets (scan_loop (i + 1) (scan_body i st1)))"
      by (rule "1.IH" [OF m [symmetric] True])
    then show ?thesis using True by (simp add: scan_loop_unfold [OF m])
  next
    case False
    then show ?thesis using "1.prems" by (simp add: scan_loop_unfold [OF m] st1)
  qed
qed

lemma scan_targets_eq:
  "targets (scan st) =
     targets (scan_loop 0 ((log' [Str ''Scanning environment...''] st)\<lparr>targets := [], markerLayer := []\<rparr>))"
  by (simp add: scan_def Let_def)

lemma scan_scanned: "list_all scanned (targets (scan st))"
  unfolding scan_targets_eq by (rule scan_loop_scanned) simp

lemma scan_length: "8 \<le> length (targets (scan st))" "length (targets (scan st)) \<le> 10"
  and scan_ids: "map id' (targets (scan st)) = [1 ..< Suc (length (targets (scan st)))]"
proof -
  define st3 where
    "st3 = (log' [Str ''Scanning environment...''] st)\<lparr>targets := [], markerLayer := []\<rparr>"
  obtain n where n: "8 \<le> n" "n \<le> 10"
    and ids: "map id' (targets (scan_loop 0 st3)) = map id' (targets st3) @ [Suc 0 ..< Suc n]"
    using scan_loop_ids [of 0 st3] by auto
  have t: "targets (scan st) = targets (scan_loop 0 st3)"
    by (simp add: scan_targets_eq st3_def)
  have m: "map id' (targets (scan st)) = [Suc 0 ..< Suc n]"
    using ids by (simp add: t st3_def)
  then have "length (map id' (targets (scan st))) = n" by simp
  then have l: "length (targets (scan st)) = n" by simp
  show "8 \<le> length (targets (scan st))" "length (targets (scan st)) \<le> 10"
    using n l by simp_all
  show "map id' (targets (scan st)) = [1 ..< Suc (length (targets (scan st)))]"
    using m l by simp
qed

lemma scan_forgets_targets: "scan (st\<lparr>targets := ts\<rparr>) = scan st"
  by (simp add: scan_def log'_def Let_def)


subsection \<open>The text of the report\<close>

lemma lines_of_Nil: "lines_of [] = []"
  by (simp add: lines_of_def)

lemma lines_of_line:
  "newline \<notin> set l \<Longrightarrow> lines_of (l @ newline # rest) = l # lines_of rest"
  by (induction l) (auto simp: lines_of_def)

lemma lines_of_concat:
  "\<forall>l \<in> set ls. newline \<notin> set l \<Longrightarrow> lines_of (concat (map (\<lambda>l. l @ [newline]) ls)) = ls"
  by (induction ls) (simp_all add: lines_of_Nil lines_of_line)

lemma foldl_append_concat: "foldl (\<lambda>acc t. acc @ f t) acc0 ts = acc0 @ concat (map f ts)"
  by (induction ts arbitrary: acc0) simp_all

lemma csv_row_line: "csv_row t = csv_line t @ [newline]"
  by (simp add: csv_row_def csv_line_def)

lemma one_decimal_no_newline: "one_decimal s \<Longrightarrow> newline \<notin> set s"
  using one_decimal_chars [of s newline] is_digit_not_newline [of newline]
  by (auto simp: newline_def)

lemma nat_to_string_no_newline: "newline \<notin> set (nat_to_string n)"
  using nat_to_string_digits [of n] is_digit_not_newline by (auto simp: list_all_iff)

lemma csv_line_no_newline: "scanned t \<Longrightarrow> newline \<notin> set (csv_line t)"
  using one_decimal_no_newline [of "distance t"] one_decimal_no_newline [of "velocity t"]
    nat_to_string_no_newline [of "id' t"]
  by (simp add: csv_line_def scanned_def) (simp add: newline_def)

lemma csv_header_no_newline: "newline \<notin> set ''ID,Distance(km),Velocity(m/s)''"
  by (simp add: newline_def)

lemma lines_of_csv:
  assumes "list_all scanned ts"
  shows "lines_of (foldl (\<lambda>csv t. csv @ csv_row t) csv_header ts)
    = ''ID,Distance(km),Velocity(m/s)'' # map csv_line ts"
proof -
  have "foldl (\<lambda>csv t. csv @ csv_row t) csv_header ts
      = concat (map (\<lambda>l. l @ [newline]) (''ID,Distance(km),Velocity(m/s)'' # map csv_line ts))"
    by (simp add: foldl_append_concat csv_header_def csv_row_line comp_def)
  moreover have "\<forall>l \<in> set (''ID,Distance(km),Velocity(m/s)'' # map csv_line ts). newline \<notin> set l"
    using assms csv_header_no_newline by (auto simp: list_all_iff csv_line_no_newline)
  ultimately show ?thesis by (simp only: lines_of_concat)
qed

lemma fields_of_last: "CHR '','' \<notin> set c \<Longrightarrow> fields_of c = [c]"
  by (induction c) (auto simp: fields_of_def)

lemma fields_of_field:
  "CHR '','' \<notin> set a \<Longrightarrow> fields_of (a @ CHR '','' # rest) = a # fields_of rest"
proof (induction a)
  case Nil
  show ?case by (simp add: fields_of_def)
next
  case (Cons x a)
  then show ?case by (auto simp: fields_of_def)
qed

lemma one_decimal_no_comma: "one_decimal s \<Longrightarrow> CHR '','' \<notin> set s"
  using one_decimal_chars [of s "CHR '',''"] is_digit_not_comma [of "CHR '',''"] by auto

lemma nat_to_string_no_comma: "CHR '','' \<notin> set (nat_to_string n)"
  using nat_to_string_digits [of n] is_digit_not_comma by (auto simp: list_all_iff)

lemma fields_of_csv_line:
  assumes "one_decimal (distance t)" "one_decimal (velocity t)"
  shows "fields_of (csv_line t) = [nat_to_string (id' t), distance t, velocity t]"
  using assms
  by (simp add: csv_line_def fields_of_field fields_of_last nat_to_string_no_comma
      one_decimal_no_comma)

subsection \<open>Maximum and minimum of stored numerals\<close>

lemma decimal_value_nonneg: "0 \<le> decimal_value s"
  by (simp add: decimal_value_def Let_def)

lemma StringToNumber_bounded:
  assumes "is_decimal s" "decimal_value s \<le> 400"
  shows "StringToNumber s = Fin (rnd (decimal_value s))"
proof -
  have "0 \<le> rnd (decimal_value s)"
    by (rule rnd_nonneg) (rule decimal_value_nonneg)
  moreover have "rnd (decimal_value s) \<le> of_nat 400"
    using assms(2) by (intro rnd_le_int decimal_value_nonneg) simp_all
  then have "rnd (decimal_value s) < 2 ^ 1024" by simp
  ultimately show ?thesis
    using assms(1) by (simp add: StringToNumber_def to_double_def Let_def)
qed

lemma rnd_max: "0 \<le> a \<Longrightarrow> 0 \<le> b \<Longrightarrow> max (rnd a) (rnd b) = rnd (max a b)"
  using rnd_mono [of a b] rnd_mono [of b a] by (cases "a \<le> b") (simp_all add: max_def)

lemma rnd_min: "0 \<le> a \<Longrightarrow> 0 \<le> b \<Longrightarrow> min (rnd a) (rnd b) = rnd (min a b)"
  using rnd_mono [of a b] rnd_mono [of b a] by (cases "a \<le> b") (simp_all add: min_def)

lemma max_from_Fin:
  "max_from (Fin h) (map (\<lambda>x. Fin (rnd x)) xs) = Fin (fold max (map rnd xs) h)"
  by (induction xs arbitrary: h) (simp_all add: max_def)

lemma min_from_Fin:
  "min_from (Fin h) (map (\<lambda>x. Fin (rnd x)) xs) = Fin (fold min (map rnd xs) h)"
  by (induction xs arbitrary: h) (simp_all add: min_def)

lemma fold_max_rnd:
  "0 \<le> h \<Longrightarrow> \<forall>x \<in> set xs. 0 \<le> x \<Longrightarrow> fold max (map rnd xs) (rnd h) = rnd (fold max xs h)"
  by (induction xs arbitrary: h) (simp_all add: rnd_max)

lemma fold_min_rnd:
  "0 \<le> h \<Longrightarrow> \<forall>x \<in> set xs. 0 \<le> x \<Longrightarrow> fold min (map rnd xs) (rnd h) = rnd (fold min xs h)"
  by (induction xs arbitrary: h) (simp_all add: rnd_min)

lemma Math_max_rnd:
  assumes "xs \<noteq> []" "\<forall>x \<in> set xs. 0 \<le> x"
  shows "Math_max (map (\<lambda>x. Fin (rnd x)) xs) = Fin (rnd (Max (set xs)))"
proof -
  obtain x ys where xs: "xs = x # ys" using assms(1) by (cases xs) auto
  have "Math_max (map (\<lambda>x. Fin (rnd x)) xs) = max_from (Fin (rnd x)) (map (\<lambda>x. Fin (rnd x)) ys)"
    by (simp add: xs Math_max_def)
  also have "\<dots> = Fin (rnd (fold max ys x))"
    using assms(2) by (simp add: xs max_from_Fin fold_max_rnd)
  also have "fold max ys x = Max (set xs)"
    unfolding xs by (simp only: Max.set_eq_fold)
  finally show ?thesis .
qed

lemma Math_min_rnd:
  assumes "xs \<noteq> []" "\<forall>x \<in> set xs. 0 \<le> x"
  shows "Math_min (map (\<lambda>x. Fin (rnd x)) xs) = Fin (rnd (Min (set xs)))"
proof -
  obtain x ys where xs: "xs = x # ys" using assms(1) by (cases xs) auto
  have "Math_min (map (\<lambda>x. Fin (rnd x)) xs) = min_from (Fin (rnd x)) (map (\<lambda>x. Fin (rnd x)) ys)"
    by (simp add: xs Math_min_def)
  also have "\<dots> = Fin (rnd (fold min ys x))"
    using assms(2) by (simp add: xs min_from_Fin fold_min_rnd)
  also have "fold min ys x = Min (set xs)"
    unfolding xs by (simp only: Min.set_eq_fold)
  finally show ?thesis .
qed

lemma scanned_numbers:
  assumes "list_all scanned ts"
  shows "map (\<lambda>t. StringToNumber (velocity t)) ts
      = map (\<lambda>x. Fin (rnd x)) (map (\<lambda>t. decimal_value (velocity t)) ts)"
    and "map (\<lambda>t. StringToNumber (distance t)) ts
      = map (\<lambda>x. Fin (rnd x)) (map (\<lambda>t. decimal_value (distance t)) ts)"
  using assms
  by (auto simp: list_all_iff scanned_def one_decimal_is_decimal
      intro!: StringToNumber_bounded)


subsection \<open>The sweep\<close>

lemma sweep_run:
  assumes "n \<le> 120"
  shows "timers ((sweep_tick (length (timers st)) ^^ n) (animateRadar st))
      = timers st @ [\<lparr>angle = 3 * n, radius = 230, cleared = (n = 120)\<rparr>]
    \<and> redraws ((sweep_tick (length (timers st)) ^^ n) (animateRadar st)) = redraws st + n
    \<and> (0 < n \<longrightarrow> canvas ((sweep_tick (length (timers st)) ^^ n) (animateRadar st))
          = Sweep_line 230 (3 * (n - 1)))"
  using assms
proof (induction n)
  case 0
  show ?case by simp
next
  case (Suc n)
  define s where "s = (sweep_tick (length (timers st)) ^^ n) (animateRadar st)"
  from Suc have n: "n < 120"
    and t: "timers s = timers st @ [\<lparr>angle = 3 * n, radius = 230, cleared = False\<rparr>]"
    and r: "redraws s = redraws st + n"
    by (simp_all add: s_def)
  have "(sweep_tick (length (timers st)) ^^ Suc n) (animateRadar st)
      = sweep_tick (length (timers st)) s"
    by (simp add: s_def)
  moreover have "timers (sweep_tick (length (timers st)) s)
      = timers st @ [\<lparr>angle = 3 * Suc n, radius = 230, cleared = (Suc n = 120)\<rparr>]"
    using n by (auto simp: sweep_tick_def Let_def t)
  moreover have "redraws (sweep_tick (length (timers st)) s) = redraws st + Suc n"
    by (simp add: sweep_tick_def Let_def t r)
  moreover have "canvas (sweep_tick (length (timers st)) s) = Sweep_line 230 (3 * n)"
    by (simp add: sweep_tick_def Let_def t)
  ultimately show ?case by simp
qed

lemma sweep_stopped:
  assumes "120 \<le> n"
  shows "(sweep_tick (length (timers st)) ^^ n) (animateRadar st)
      = (sweep_tick (length (timers st)) ^^ 120) (animateRadar st)"
proof -
  define s where "s = (sweep_tick (length (timers st)) ^^ 120) (animateRadar st)"
  have "timers s = timers st @ [\<lparr>angle = 3 * 120, radius = 230, cleared = True\<rparr>]"
    using sweep_run [of 120 st] by (simp add: s_def)
  then have stay: "sweep_tick (length (timers st)) s = s"
    by (simp add: sweep_tick_def)
  have "(sweep_tick (length (timers st)) ^^ m) s = s" for m
    by (induction m) (simp_all add: stay)
  then have "(sweep_tick (length (timers st)) ^^ (n - 120)) s = s" .
  moreover have "(sweep_tick (length (timers st)) ^^ n) (animateRadar st)
      = (sweep_tick (length (timers st)) ^^ (n - 120)) s"
    using assms funpow_add [of "n - 120" 120 "sweep_tick (length (timers st))"]
    by (simp add: s_def)
  ultimately show ?thesis by (simp add: s_def)
qed

subsection \<open>The status fields\<close>

lemma shows_one_decimal_toFixed:
  assumes "of_nat lo \<le> x" "x \<le> of_nat hi"
  shows "shows_one_decimal (toFixed 1 x @ unit) unit (of_nat lo) (of_nat hi)"
proof -
  have "0 \<le> x" using assms(1) of_nat_0_le_iff [of lo, where ?'a = rat] by linarith
  then show ?thesis
    using toFixed_bounds [OF assms] one_decimal_toFixed [of x]
    by (simp add: shows_one_decimal_def)
qed

lemma fadd_fmul_random_bounds:
  assumes "a + b < 2 ^ 53"
  shows "of_nat a \<le> fadd (of_nat a) (fmul (Rep_unit_double u) (of_nat b))"
    and "fadd (of_nat a) (fmul (Rep_unit_double u) (of_nat b)) \<le> of_nat (a + b)"
proof -
  have b: "0 \<le> fmul (Rep_unit_double u) (of_nat b)" "fmul (Rep_unit_double u) (of_nat b) \<le> of_nat b"
    using assms by (intro fmul_random_bounds, simp)+
  show "of_nat a \<le> fadd (of_nat a) (fmul (Rep_unit_double u) (of_nat b))"
    unfolding fadd_def using b(1) assms by (intro rnd_ge_int) simp_all
  have "0 \<le> of_nat a + fmul (Rep_unit_double u) (of_nat b)"
    using b(1) of_nat_0_le_iff [of a, where ?'a = rat] by linarith
  moreover have "of_nat a + fmul (Rep_unit_double u) (of_nat b) \<le> of_nat (a + b)"
    using b(2) by simp
  ultimately show "fadd (of_nat a) (fmul (Rep_unit_double u) (of_nat b)) \<le> of_nat (a + b)"
    unfolding fadd_def using assms by (intro rnd_le_int)
qed

lemma status_number:
  assumes "a + b < 2 ^ 53"
  shows "shows_one_decimal (toFixed 1 (fadd (of_nat a) (fmul (Rep_unit_double u) (of_nat b))) @ unit)
    unit (of_nat a) (of_nat (a + b))"
  using fadd_fmul_random_bounds [OF assms, of u] by (rule shows_one_decimal_toFixed)

lemma updateSystemStatus_fields:
  "activeTargets (updateSystemStatus st) = nat_to_string (length (targets st))"
  "wind (updateSystemStatus st)
     = toFixed 1 (fadd 10 (fmul (Rep_unit_double (random_source st (random_calls st))) 20)) @ '' km/h''"
  "weather (updateSystemStatus st)
     = array_get [''Clear'', ''Cloudy'', ''Rainy'']
         (Math_floor (fmul (Rep_unit_double (random_source st (random_calls st + 1))) 3))"
  "cpuLoad (updateSystemStatus st)
     = toFixed 1 (fadd 30 (fmul (Rep_unit_double (random_source st (random_calls st + 2))) 60)) @ ''%''"
  "temperature (updateSystemStatus st)
     = toFixed 1 (fadd 25 (fmul (Rep_unit_double (random_source st (random_calls st + 3))) 10))
         @ [CHR 0xB0, CHR ''C'']"
  by (simp_all add: updateSystemStatus_def Math_random_def Let_def numeral_eq_Suc)

lemma weather_index:
  assumes "0 \<le> k" "k \<le> 2"
  shows "array_get [''Clear'', ''Cloudy'', ''Rainy''] k
    = (if k = 0 then ''Clear'' else if k = 1 then ''Cloudy'' else ''Rainy'')"
proof -
  from assms have "k = 0 \<or> k = 1 \<or> k = 2" by linarith
  then show ?thesis by (auto simp: array_get_def)
qed

lemma floor_random_times_3_bands:
  fixes u :: unit_double
  defines "r \<equiv> Rep_unit_double u"
  shows "r \<le> 1 / 3 - 1 / (3 * 2 ^ 53) \<Longrightarrow> Math_floor (fmul r 3) = 0"
    and "1 / 3 \<le> r \<Longrightarrow> r \<le> 2 / 3 - 1 / (3 * 2 ^ 52) \<Longrightarrow> Math_floor (fmul r 3) = 1"
    and "2 / 3 \<le> r \<Longrightarrow> Math_floor (fmul r 3) = 2"
proof -
  have r0: "0 \<le> r * 3" using Rep_unit_double_bounds(1) [of u] by (simp add: r_def)
  have f1: "rnd (of_int (2 ^ 53 - 1) / 2 ^ 53) = of_int (2 ^ 53 - 1) / 2 ^ 53"
    by (rule rnd_fix) simp_all
  have f2: "rnd (of_int (2 ^ 53 - 1) / 2 ^ 52) = of_int (2 ^ 53 - 1) / 2 ^ 52"
    by (rule rnd_fix) simp_all
  {
    assume "r \<le> 1 / 3 - 1 / (3 * 2 ^ 53)"
    then have "r * 3 \<le> of_int (2 ^ 53 - 1) / 2 ^ 53" by simp
    then have "rnd (r * 3) \<le> of_int (2 ^ 53 - 1) / 2 ^ 53"
      using rnd_mono [OF r0] f1 by fastforce
    then have "rnd (r * 3) < 1" by simp
    moreover have "0 \<le> rnd (r * 3)" using r0 by (rule rnd_nonneg)
    ultimately show "Math_floor (fmul r 3) = 0"
      by (simp add: Math_floor_def fmul_def floor_eq_iff)
  next
    assume a: "1 / 3 \<le> r" "r \<le> 2 / 3 - 1 / (3 * 2 ^ 52)"
    then have "r * 3 \<le> of_int (2 ^ 53 - 1) / 2 ^ 52" by simp
    then have "rnd (r * 3) \<le> of_int (2 ^ 53 - 1) / 2 ^ 52"
      using rnd_mono [OF r0] f2 by fastforce
    then have "rnd (r * 3) < 2" by simp
    moreover have "of_nat 1 \<le> rnd (r * 3)"
      using a(1) by (intro rnd_ge_int) simp_all
    ultimately show "Math_floor (fmul r 3) = 1"
      by (simp add: Math_floor_def fmul_def floor_eq_iff)
  next
    assume a: "2 / 3 \<le> r"
    then have "of_nat 2 \<le> rnd (r * 3)"
      by (intro rnd_ge_int) simp_all
    moreover have "Math_floor (fmul r 3) \<le> 2"
      unfolding r_def by (rule floor_random_times_3)
    ultimately show "Math_floor (fmul r 3) = 2"
      by (simp add: Math_floor_def fmul_def floor_eq_iff floor_le_iff)
  }
qed


subsection \<open>Numbers of one-decimal numerals\<close>

text \<open>
  Two numerals with one decimal place that differ have different Numbers, in the same
  order: between two tenths there are two multiples of 1/32, which are Numbers.
\<close>

lemma rnd_tenths_strict:
  assumes "a < b" "b \<le> 4000"
  shows "rnd (of_nat a / 10) < rnd (of_nat b / 10)"
proof -
  define m where "m = \<lceil>(of_nat a :: rat) * 32 / 10\<rceil>"
  have m1: "(of_nat a :: rat) * 32 / 10 \<le> of_int m" and m2: "of_int m < (of_nat a :: rat) * 32 / 10 + 1"
    unfolding m_def by linarith+
  have "(0::rat) \<le> of_nat a * 32 / 10" by simp
  then have m0: "0 \<le> m" unfolding m_def by (simp add: ceiling_le_iff le_ceiling_iff)
  have "(of_nat a :: rat) \<le> 4000"
    using assms by simp
  then have "of_int m < (12801 :: rat)" using m2 by linarith
  then have m3: "m < 12801" by (simp only: of_int_less_iff [of m 12801, where ?'a = rat, simplified])
  have f1: "rnd (of_int m / 2 ^ 5) = of_int m / 2 ^ 5"
    using m0 m3 by (intro rnd_fix) simp_all
  have f2: "rnd (of_int (m + 1) / 2 ^ 5) = of_int (m + 1) / 2 ^ 5"
    using m0 m3 by (intro rnd_fix) simp_all
  have "(of_nat a :: rat) + 1 \<le> of_nat b"
    using assms(1) of_nat_mono [of "Suc a" b, where ?'a = rat] by simp
  then have hi: "of_int (m + 1) / 2 ^ 5 \<le> (of_nat b :: rat) / 10"
    using m2 by (simp add: field_simps)
  have lo: "(of_nat a :: rat) / 10 \<le> of_int m / 2 ^ 5"
    using m1 by (simp add: field_simps)
  have "rnd (of_nat a / 10) \<le> of_int m / 2 ^ 5"
    using rnd_mono [OF _ lo] f1 by simp
  moreover have "of_int (m + 1) / 2 ^ 5 \<le> rnd (of_nat b / 10)"
    using rnd_mono [OF _ hi] f2 m0 by simp
  moreover have "(of_int m :: rat) / 2 ^ 5 < of_int (m + 1) / 2 ^ 5" by simp
  ultimately show ?thesis by linarith
qed

lemma rnd_tenths_le_iff:
  assumes "a \<le> 4000" "b \<le> 4000"
  shows "rnd (of_nat a / 10) \<le> rnd (of_nat b / 10) \<longleftrightarrow> a \<le> b"
proof (cases "a \<le> b")
  case True
  then have "(of_nat a :: rat) / 10 \<le> of_nat b / 10" by simp
  then have "rnd (of_nat a / 10) \<le> rnd (of_nat b / 10)"
    by (intro rnd_mono) simp_all
  with True show ?thesis by simp
next
  case False
  then have "rnd (of_nat b / 10) < rnd (of_nat a / 10)"
    using assms by (intro rnd_tenths_strict) simp_all
  with False show ?thesis by simp
qed

lemma one_decimal_tenths:
  assumes "one_decimal s"
  shows "\<exists>n. decimal_value s = of_nat n / 10"
proof -
  from assms obtain p d where "point_part s = [p, d]"
    by (auto simp: one_decimal_def split: list.splits)
  then have "decimal_value s
      = of_nat (digits_value (int_part s)) + of_nat (digit_value d) / 10"
    by (simp add: decimal_value_def digits_value_single)
  also have "\<dots> = of_nat (10 * digits_value (int_part s) + digit_value d) / 10"
    by (simp only: of_nat_add of_nat_mult) (simp add: field_simps)
  finally show ?thesis by blast
qed

lemma one_decimal_number_le_iff:
  assumes "one_decimal s" "decimal_value s \<le> 400" "one_decimal s'" "decimal_value s' \<le> 400"
  shows "rnd (decimal_value s) \<le> rnd (decimal_value s') \<longleftrightarrow> decimal_value s \<le> decimal_value s'"
proof -
  obtain a b where a: "decimal_value s = of_nat a / 10" and b: "decimal_value s' = of_nat b / 10"
    using one_decimal_tenths [OF assms(1)] one_decimal_tenths [OF assms(3)] by blast
  have "(of_nat a :: rat) \<le> of_nat 4000" "(of_nat b :: rat) \<le> of_nat 4000"
    using assms(2,4) unfolding a b by simp_all
  then have "a \<le> 4000" "b \<le> 4000" by (simp_all only: of_nat_le_iff)
  then show ?thesis
    unfolding a b by (simp add: rnd_tenths_le_iff)
qed


subsection \<open>Events\<close>

lemma executeCommand_cases:
  "executeCommand input st =
     (if toLowerCase input = ''scan'' then scan st
      else if toLowerCase input = ''report'' then generateReport st
      else if toLowerCase input = ''analyze'' then analyze st
      else if toLowerCase input = ''clear'' then clearLogs st
      else showHelp st)"
  by (simp add: executeCommand_def Let_def)

lemma step_scanned:
  "list_all scanned (targets st) \<Longrightarrow> list_all scanned (targets (step st e))"
  by (cases e)
    (simp_all add: executeCommand_cases scan_scanned generateReport_targets analyze_targets
      clearLogs_targets)

text \<open>
  Every target list that the events of the page build from an empty one consists of
  targets as \<^verbatim>\<open>scan\<close> makes them.
\<close>

lemma steps_scanned:
  "list_all scanned (targets st) \<Longrightarrow> list_all scanned (targets (foldl step st es))"
  by (induction es arbitrary: st) (simp_all add: step_scanned)

lemma reachable_scanned:
  "targets st = [] \<Longrightarrow> list_all scanned (targets (foldl step st es))"
  by (rule steps_scanned) simp

lemma step_keeps_empty:
  "\<not> is_scan e \<Longrightarrow> targets st = [] \<Longrightarrow> targets (step st e) = []"
  by (cases e)
    (simp_all add: is_scan_def executeCommand_cases generateReport_targets analyze_targets
      clearLogs_targets)

lemma steps_keep_empty:
  "list_all (\<lambda>e. \<not> is_scan e) es \<Longrightarrow> targets st = [] \<Longrightarrow> targets (foldl step st es) = []"
  by (induction es arbitrary: st) (simp_all add: step_keeps_empty)

lemma analyze_empty: "targets st = [] \<Longrightarrow> analyze st = log' [Str ''No data to analyze.''] st"
  by (simp add: analyze_def)

subsection \<open>Characters of the examples\<close>

lemma lower_char_code:
  "(of_char (lower_char c) :: nat) =
     (let n = of_char c
      in if (65 \<le> n \<and> n \<le> 90) \<or> (192 \<le> n \<and> n \<le> 222 \<and> n \<noteq> 215) then n + 32 else n)"
proof -
  have "(of_char c :: nat) < 256" by simp
  then have "222 < (of_char c :: nat) \<or> (of_char c :: nat) + 32 < 256" by linarith
  then show ?thesis by (auto simp: lower_char_def Let_def)
qed

lemma toLowerCase_eq_iff:
  "toLowerCase s = t \<longleftrightarrow> map (\<lambda>c. of_char (lower_char c) :: nat) s = map of_char t"
proof -
  have "toLowerCase s = t \<longleftrightarrow> map (of_char :: char \<Rightarrow> nat) (toLowerCase s) = map of_char t"
    by (simp only: inj_map_eq_map [OF inj_of_char [where ?'a = nat]])
  then show ?thesis by (simp add: toLowerCase_def comp_def)
qed


subsection \<open>Timers under other events\<close>

lemma scan_body_timers: "timers (scan_body i st) = timers st"
  by (simp add: scan_body_def new_target_def Math_random_def)

lemma scan_loop_timers: "timers (scan_loop i st) = timers st"
proof (induction i st rule: scan_loop.induct)
  case (1 i st)
  obtain r st1 where m: "Math_random st = (r, st1)" by (cases "Math_random st")
  then have st1: "timers st1 = timers st"
    using Math_random_eq [OF m] by simp
  show ?case
  proof (cases "int i < 8 + Math_floor (fmul r 3)")
    case True
    then show ?thesis
      using "1.IH" [OF m [symmetric] True] by (simp add: scan_loop_unfold [OF m] scan_body_timers st1)
  next
    case False
    then show ?thesis by (simp add: scan_loop_unfold [OF m] st1)
  qed
qed

lemma updateSystemStatus_timers: "timers (updateSystemStatus st) = timers st"
  by (simp add: updateSystemStatus_def Math_random_def Let_def)

lemma scan_timers:
  "timers (scan st) = timers st @ [\<lparr>angle = 0, radius = 230, cleared = False\<rparr>]"
  by (simp add: scan_def Let_def updateSystemStatus_timers updateTable_def scan_loop_timers)

lemma executeCommand_timers:
  "\<exists>new. timers (executeCommand input st) = timers st @ new"
  by (simp add: executeCommand_cases scan_timers generateReport_def analyze_def clearLogs_def
      showHelp_def Let_def)

lemma sweep_tick_other:
  "j \<noteq> k \<Longrightarrow> length (timers (sweep_tick j st)) = length (timers st) \<and>
     timers (sweep_tick j st) ! k = timers st ! k"
  by (simp add: sweep_tick_def Let_def)

lemma sweep_tick_same:
  assumes "k < length (timers st)"
    "timers st ! k = \<lparr>angle = 3 * min c 120, radius = 230, cleared = (120 \<le> c)\<rparr>"
  shows "length (timers (sweep_tick k st)) = length (timers st) \<and>
     timers (sweep_tick k st) ! k
       = \<lparr>angle = 3 * min (Suc c) 120, radius = 230, cleared = (120 \<le> Suc c)\<rparr>"
proof (cases "120 \<le> c")
  case True
  then show ?thesis using assms by (simp add: sweep_tick_def)
next
  case False
  then have "min c 120 = c" "min (Suc c) 120 = Suc c" "(360 \<le> 3 * c + 3) = (120 \<le> Suc c)"
    by auto
  then show ?thesis using assms False by (simp add: sweep_tick_def Let_def)
qed

lemma step_timer:
  assumes "k < length (timers st)"
    "timers st ! k = \<lparr>angle = 3 * min c 120, radius = 230, cleared = (120 \<le> c)\<rparr>"
  shows "k < length (timers (step st e)) \<and>
     timers (step st e) ! k
       = \<lparr>angle = 3 * min (c + count_list [e] (Tick k)) 120, radius = 230,
          cleared = (120 \<le> c + count_list [e] (Tick k))\<rparr>"
proof (cases e)
  case (Command input)
  obtain new where "timers (executeCommand input st) = timers st @ new"
    using executeCommand_timers by blast
  then show ?thesis using assms Command by (simp add: nth_append)
next
  case (Tick j)
  show ?thesis
  proof (cases "j = k")
    case True
    then show ?thesis using sweep_tick_same [OF assms] assms(1) Tick by simp
  next
    case False
    then show ?thesis using sweep_tick_other [OF False, of st] assms Tick by simp
  qed
qed

lemma steps_timer:
  assumes "k < length (timers st)"
    "timers st ! k = \<lparr>angle = 3 * min c 120, radius = 230, cleared = (120 \<le> c)\<rparr>"
  shows "k < length (timers (foldl step st es)) \<and>
     timers (foldl step st es) ! k
       = \<lparr>angle = 3 * min (c + count_list es (Tick k)) 120, radius = 230,
          cleared = (120 \<le> c + count_list es (Tick k))\<rparr>"
  using assms
proof (induction es arbitrary: st c)
  case Nil
  then show ?case by simp
next
  case (Cons e es)
  have "k < length (timers (step st e))"
    and "timers (step st e) ! k
       = \<lparr>angle = 3 * min (c + count_list [e] (Tick k)) 120, radius = 230,
          cleared = (120 \<le> c + count_list [e] (Tick k))\<rparr>"
    using step_timer [OF Cons.prems, of e] by simp_all
  from Cons.IH [OF this] show ?case by (simp add: add.assoc)
qed

lemma sweep_among_events:
  "timers (foldl step (animateRadar st) es) ! length (timers st)
     = \<lparr>angle = 3 * min (count_list es (Tick (length (timers st)))) 120, radius = 230,
        cleared = (120 \<le> count_list es (Tick (length (timers st))))\<rparr>"
  using steps_timer [of "length (timers st)" "animateRadar st" 0 es] by simp


subsection \<open>The log and the alerts\<close>

lemma scan_body_alerts: "alerts (scan_body i st) = alerts st"
  by (simp add: scan_body_def new_target_def Math_random_def)

lemma scan_loop_alerts: "alerts (scan_loop i st) = alerts st"
proof (induction i st rule: scan_loop.induct)
  case (1 i st)
  obtain r st1 where m: "Math_random st = (r, st1)" by (cases "Math_random st")
  then have st1: "alerts st1 = alerts st"
    using Math_random_eq [OF m] by simp
  show ?case
  proof (cases "int i < 8 + Math_floor (fmul r 3)")
    case True
    then show ?thesis
      using "1.IH" [OF m [symmetric] True] by (simp add: scan_loop_unfold [OF m] scan_body_alerts st1)
  next
    case False
    then show ?thesis by (simp add: scan_loop_unfold [OF m] st1)
  qed
qed

lemma scan_alerts: "alerts (scan st) = alerts st"
  by (simp add: scan_def Let_def log'_def updateSystemStatus_def Math_random_def updateTable_def
      animateRadar_def scan_loop_alerts)

lemma scan_last_log:
  "last (logArea (scan st))
     = [Str (nat_to_string (length (targets (scan st))) @ '' targets detected.'')]"
  by (simp add: scan_def Let_def)

lemma generateReport_effect:
  "targets st = [] \<Longrightarrow>
     generateReport st = st\<lparr>logArea := logArea st @ [[Str ''No targets to report.'']]\<rparr>"
  "targets st \<noteq> [] \<Longrightarrow>
     generateReport st =
       st\<lparr>downloads := downloads st @
            [\<lparr>file_name = ''radar_report.csv'', blob_type = ''text/csv'',
              blob_text = foldl (\<lambda>csv t. csv @ csv_row t) csv_header (targets st)\<rparr>],
          logArea := logArea st @ [[Str ''Report downloaded as radar_report.csv'']]\<rparr>"
  by (simp_all add: generateReport_def log'_def Let_def)

lemma analyze_effect:
  "analyze st =
     st\<lparr>logArea := logArea st @
        [if targets st = [] then [Str ''No data to analyze.'']
         else [Str ''Analysis complete: Fastest '',
               Num (Math_max (map (\<lambda>t. StringToNumber (velocity t)) (targets st))),
               Str '' m/s, Closest '',
               Num (Math_min (map (\<lambda>t. StringToNumber (distance t)) (targets st))),
               Str '' km.'']]\<rparr>"
  by (simp add: analyze_def log'_def Let_def)

lemma clearLogs_effect:
  "logArea (clearLogs st) = [[Str ''System reset.'']]" "alerts (clearLogs st) = alerts st"
  by (simp_all add: clearLogs_def log'_def Let_def)

lemma lines_of_help_text:
  "lines_of help_text =
     [''Available commands:'', ''scan - detect targets'', ''report - download target data'',
      ''analyze - run analytics'', ''clear - reset logs'', ''help - show this message'']"
  by (simp add: help_text_def lines_of_def newline_def)

subsection \<open>Example states\<close>

text \<open>
  \<open>example_state\<close> is a page without targets whose random generator returns the Numbers
  of a fixed sequence of bit patterns; \<open>example_store\<close> is the same page holding two
  targets.
\<close>

definition example_state :: state where
  "example_state =
     \<lparr>targets = [], logArea = [], markerLayer = [], targetTable = '''', canvas = Blank,
      redraws = 0, timers = [], activeTargets = '''', wind = '''', weather = '''',
      cpuLoad = '''', temperature = '''', downloads = [], alerts = [],
      random_source = (\<lambda>n. unit_double_of_bits (int n * 1234567890123457 + 4503599627370495)),
      random_calls = 0\<rparr>"

definition example_store :: state where
  "example_store = example_state
     \<lparr>targets :=
        [\<lparr>id' = 1, distance = ''9.5'', velocity = ''10.0'', lat = 25, lng = 80\<rparr>,
         \<lparr>id' = 2, distance = ''120.0'', velocity = ''9.5'', lat = 21, lng = 85\<rparr>]\<rparr>"

lemma example_store_scanned: "list_all scanned (targets example_store)"
  by (simp add: example_store_def example_state_def scanned_def one_decimal_def int_part_def
      point_part_def is_digit_def decimal_value_def digits_value_def digit_value_def)


section \<open>The properties\<close>

text \<open>
  C1. After \<^verbatim>\<open>scan\<close>, whatever the state before it, the target list has between 8 and
  10 entries, and their ids are 1, 2, ... up to the number of entries, in the order of
  the list: each id occurs once. Nothing of the list before the scan is left: the scan
  does the same whatever that list was.
\<close>

theorem scan_count_and_ids:
  "8 \<le> length (targets (scan st)) \<and> length (targets (scan st)) \<le> 10 \<and>
   map id' (targets (scan st)) = [1 ..< Suc (length (targets (scan st)))] \<and>
   distinct (map id' (targets (scan st))) \<and>
   scan (st\<lparr>targets := ts\<rparr>) = scan st"
proof -
  have "distinct (map id' (targets (scan st)))"
    by (subst scan_ids) (rule distinct_upt)
  then show ?thesis
    using scan_length [of st] scan_ids [of st] scan_forgets_targets [of ts st] by simp
qed

theorem scan_count_and_ids_witness:
  "8 \<le> length (targets (scan example_store)) \<and> length (targets (scan example_store)) \<le> 10 \<and>
   map id' (targets (scan example_store)) = [1 ..< Suc (length (targets (scan example_store)))] \<and>
   distinct (map id' (targets (scan example_store))) \<and>
   scan example_store = scan example_state"
  using scan_count_and_ids [of example_store "targets example_store"]
    scan_count_and_ids [of example_state "targets example_store"]
  by (simp add: example_store_def)

text \<open>
  C9. \<^verbatim>\<open>generateReport\<close> and \<^verbatim>\<open>analyze\<close> leave the target list as it is, for every
  state, with targets or without.
\<close>

theorem report_and_analyze_keep_targets:
  "targets (generateReport st) = targets st \<and> targets (analyze st) = targets st"
  by (simp add: generateReport_targets analyze_targets)

theorem report_and_analyze_keep_targets_witness:
  "targets (generateReport example_store) = targets example_store \<and>
   targets (analyze example_store) = targets example_store \<and>
   targets (generateReport example_state) = [] \<and> targets (analyze example_state) = []"
  using report_and_analyze_keep_targets [of example_store]
    report_and_analyze_keep_targets [of example_state]
  by (simp add: example_state_def)


text \<open>
  C7. Every target that \<^verbatim>\<open>scan\<close> puts into the list has a distance between 0 and 200
  and a velocity between 0 and 400: both strings are decimal numerals, and these are
  their values.
\<close>

theorem scan_distance_velocity_ranges:
  "\<forall>t \<in> set (targets (scan st)).
     is_decimal (distance t) \<and> 0 \<le> decimal_value (distance t) \<and> decimal_value (distance t) \<le> 200 \<and>
     is_decimal (velocity t) \<and> 0 \<le> decimal_value (velocity t) \<and> decimal_value (velocity t) \<le> 400"
  using scan_scanned [of st]
  by (simp add: list_all_iff scanned_def one_decimal_is_decimal decimal_value_nonneg)

theorem scan_distance_velocity_ranges_witness:
  "targets (scan example_store) \<noteq> [] \<and>
   list_all (\<lambda>t.
     is_decimal (distance t) \<and> 0 \<le> decimal_value (distance t) \<and> decimal_value (distance t) \<le> 200 \<and>
     is_decimal (velocity t) \<and> 0 \<le> decimal_value (velocity t) \<and> decimal_value (velocity t) \<le> 400)
     (targets (scan example_store))"
proof -
  have "targets (scan example_store) \<noteq> []"
    using scan_length(1) [of example_store] by auto
  then show ?thesis
    using scan_distance_velocity_ranges [of example_store] by (simp add: list_all_iff)
qed

text \<open>
  C10. The distance and the velocity of every target that \<^verbatim>\<open>scan\<close> makes are strings,
  each a decimal numeral with exactly one digit after the point. So the report made from
  them has, after its header line, one line for each target whose three fields are the
  id, the distance and the velocity, the last two with one decimal place.
\<close>

theorem scan_stores_one_decimal_strings:
  "(\<forall>t \<in> set (targets (scan st)). one_decimal (distance t) \<and> one_decimal (velocity t)) \<and>
   tl (lines_of (blob_text (last (downloads (generateReport (scan st))))))
     = map csv_line (targets (scan st)) \<and>
   (\<forall>t \<in> set (targets (scan st)).
      fields_of (csv_line t) = [nat_to_string (id' t), distance t, velocity t])"
proof -
  have s: "list_all scanned (targets (scan st))" by (rule scan_scanned)
  then have d: "\<forall>t \<in> set (targets (scan st)). one_decimal (distance t) \<and> one_decimal (velocity t)"
    by (simp add: list_all_iff scanned_def)
  have "targets (scan st) \<noteq> []"
    using scan_length(1) [of st] by auto
  then have "blob_text (last (downloads (generateReport (scan st))))
      = foldl (\<lambda>csv t. csv @ csv_row t) csv_header (targets (scan st))"
    by (simp add: generateReport_def Let_def)
  then have "tl (lines_of (blob_text (last (downloads (generateReport (scan st))))))
      = map csv_line (targets (scan st))"
    using lines_of_csv [OF s] by simp
  then show ?thesis
    using d by (simp add: fields_of_csv_line)
qed

theorem scan_stores_one_decimal_strings_witness:
  "targets (scan example_state) \<noteq> [] \<and>
   list_all (\<lambda>t. one_decimal (distance t) \<and> one_decimal (velocity t)) (targets (scan example_state)) \<and>
   tl (lines_of (blob_text (last (downloads (generateReport (scan example_state))))))
     = map csv_line (targets (scan example_state)) \<and>
   list_all (\<lambda>t. fields_of (csv_line t) = [nat_to_string (id' t), distance t, velocity t])
     (targets (scan example_state))"
proof -
  have "targets (scan example_state) \<noteq> []"
    using scan_length(1) [of example_state] by auto
  then show ?thesis
    using scan_stores_one_decimal_strings [of example_state] by (simp add: list_all_iff)
qed

text \<open>
  C3. \<^verbatim>\<open>generateReport\<close> on an empty target list appends its notice to the log area and
  does nothing else: no download is offered, and nothing fails. On a list with targets it
  offers one download named \<^verbatim>\<open>radar_report.csv\<close>, of type \<^verbatim>\<open>text/csv\<close>, appends
  the message that the report was downloaded to the log area, and does nothing else. The
  text of the download, for targets as \<^verbatim>\<open>scan\<close> makes them, has one line more than there
  are targets: the header \<^verbatim>\<open>ID,Distance(km),Velocity(m/s)\<close>, then the comma-separated row
  of each target in the order of the list.
\<close>

theorem generateReport_empty_and_csv:
  "(targets st = [] \<longrightarrow>
      generateReport st = st\<lparr>logArea := logArea st @ [[Str ''No targets to report.'']]\<rparr> \<and>
      logArea (generateReport st) = logArea st @ [[Str ''No targets to report.'']] \<and>
      downloads (generateReport st) = downloads st) \<and>
   (targets st \<noteq> [] \<longrightarrow>
      generateReport st =
        st\<lparr>downloads := downloads st @
             [\<lparr>file_name = ''radar_report.csv'', blob_type = ''text/csv'',
               blob_text = foldl (\<lambda>csv t. csv @ csv_row t) csv_header (targets st)\<rparr>],
           logArea := logArea st @ [[Str ''Report downloaded as radar_report.csv'']]\<rparr> \<and>
      downloads (generateReport st) =
        downloads st @
          [\<lparr>file_name = ''radar_report.csv'', blob_type = ''text/csv'',
            blob_text = foldl (\<lambda>csv t. csv @ csv_row t) csv_header (targets st)\<rparr>] \<and>
      logArea (generateReport st)
        = logArea st @ [[Str ''Report downloaded as radar_report.csv'']]) \<and>
   (list_all scanned (targets st) \<longrightarrow>
      lines_of (foldl (\<lambda>csv t. csv @ csv_row t) csv_header (targets st))
        = ''ID,Distance(km),Velocity(m/s)'' # map csv_line (targets st) \<and>
      length (lines_of (foldl (\<lambda>csv t. csv @ csv_row t) csv_header (targets st)))
        = length (targets st) + 1)"
proof -
  have "generateReport st = st\<lparr>logArea := logArea st @ [[Str ''No targets to report.'']]\<rparr>"
    and "logArea (generateReport st) = logArea st @ [[Str ''No targets to report.'']]"
    and "downloads (generateReport st) = downloads st" if "targets st = []"
    using generateReport_effect(1) [OF that] by simp_all
  moreover have "generateReport st =
      st\<lparr>downloads := downloads st @
           [\<lparr>file_name = ''radar_report.csv'', blob_type = ''text/csv'',
             blob_text = foldl (\<lambda>csv t. csv @ csv_row t) csv_header (targets st)\<rparr>],
         logArea := logArea st @ [[Str ''Report downloaded as radar_report.csv'']]\<rparr>"
    and "downloads (generateReport st) =
      downloads st @
        [\<lparr>file_name = ''radar_report.csv'', blob_type = ''text/csv'',
          blob_text = foldl (\<lambda>csv t. csv @ csv_row t) csv_header (targets st)\<rparr>]"
    and "logArea (generateReport st)
      = logArea st @ [[Str ''Report downloaded as radar_report.csv'']]"
    if "targets st \<noteq> []"
    using generateReport_effect(2) [OF that] by simp_all
  moreover have "lines_of (foldl (\<lambda>csv t. csv @ csv_row t) csv_header (targets st))
      = ''ID,Distance(km),Velocity(m/s)'' # map csv_line (targets st)"
    and "length (lines_of (foldl (\<lambda>csv t. csv @ csv_row t) csv_header (targets st)))
      = length (targets st) + 1"
    if "list_all scanned (targets st)"
    using lines_of_csv [OF that] by simp_all
  ultimately show ?thesis by blast
qed

theorem generateReport_empty_and_csv_witness:
  "logArea (generateReport example_state) = [[Str ''No targets to report.'']] \<and>
   downloads (generateReport example_state) = [] \<and>
   generateReport example_state
     = example_state\<lparr>logArea := [[Str ''No targets to report.'']]\<rparr> \<and>
   downloads (generateReport example_store) =
     [\<lparr>file_name = ''radar_report.csv'', blob_type = ''text/csv'',
       blob_text = foldl (\<lambda>csv t. csv @ csv_row t) csv_header (targets example_store)\<rparr>] \<and>
   logArea (generateReport example_store) = [[Str ''Report downloaded as radar_report.csv'']] \<and>
   lines_of (foldl (\<lambda>csv t. csv @ csv_row t) csv_header (targets example_store))
     = [''ID,Distance(km),Velocity(m/s)'', ''1,9.5,10.0'', ''2,120.0,9.5'']"
proof -
  have e: "targets example_state = []" "downloads example_state = []" "logArea example_state = []"
    by (simp_all add: example_state_def)
  have s: "targets example_store \<noteq> []" "downloads example_store = []" "logArea example_store = []"
    by (simp_all add: example_store_def example_state_def)
  have one: "nat_to_string (Suc 0) = ''1''" and two: "nat_to_string 2 = ''2''"
    by (subst nat_to_string.simps, simp add: digit_char_def char_of_eq_iff)+
  have l: "map csv_line (targets example_store) = [''1,9.5,10.0'', ''2,120.0,9.5'']"
    by (simp add: example_store_def example_state_def csv_line_def one two)
  show ?thesis
    using generateReport_empty_and_csv [of example_state]
      generateReport_empty_and_csv [of example_store] example_store_scanned
    by (simp add: e s l)
qed

text \<open>
  C2. \<^verbatim>\<open>analyze\<close> on an empty target list appends its notice to the log area and does
  nothing else: nothing is computed. On a list of targets as \<^verbatim>\<open>scan\<close> makes them it
  appends one message to the log area and does nothing else; the message names, as the
  fastest, the Number of the largest velocity and, as the closest, the Number of the
  smallest distance: the strings are compared by their numeric values (the Number of a
  value being the binary64 nearest to it), not as text, and on such targets the order of
  the Numbers is the order of the values.
\<close>

theorem analyze_empty_and_extremes:
  "(targets st = [] \<longrightarrow>
      analyze st = st\<lparr>logArea := logArea st @ [[Str ''No data to analyze.'']]\<rparr> \<and>
      logArea (analyze st) = logArea st @ [[Str ''No data to analyze.'']]) \<and>
   (targets st \<noteq> [] \<and> list_all scanned (targets st) \<longrightarrow>
      analyze st =
        st\<lparr>logArea := logArea st @
          [[Str ''Analysis complete: Fastest '',
            Num (Fin (rnd (Max (set (map (\<lambda>t. decimal_value (velocity t)) (targets st)))))),
            Str '' m/s, Closest '',
            Num (Fin (rnd (Min (set (map (\<lambda>t. decimal_value (distance t)) (targets st)))))),
            Str '' km.'']]\<rparr> \<and>
      logArea (analyze st) =
        logArea st @
          [[Str ''Analysis complete: Fastest '',
            Num (Fin (rnd (Max (set (map (\<lambda>t. decimal_value (velocity t)) (targets st)))))),
            Str '' m/s, Closest '',
            Num (Fin (rnd (Min (set (map (\<lambda>t. decimal_value (distance t)) (targets st)))))),
            Str '' km.'']]) \<and>
   (list_all scanned (targets st) \<longrightarrow>
      (\<forall>t \<in> set (targets st). \<forall>t' \<in> set (targets st).
         (rnd (decimal_value (velocity t)) \<le> rnd (decimal_value (velocity t'))
            \<longleftrightarrow> decimal_value (velocity t) \<le> decimal_value (velocity t')) \<and>
         (rnd (decimal_value (distance t)) \<le> rnd (decimal_value (distance t'))
            \<longleftrightarrow> decimal_value (distance t) \<le> decimal_value (distance t'))))"
proof -
  have order: "(rnd (decimal_value (velocity t)) \<le> rnd (decimal_value (velocity t'))
        \<longleftrightarrow> decimal_value (velocity t) \<le> decimal_value (velocity t')) \<and>
      (rnd (decimal_value (distance t)) \<le> rnd (decimal_value (distance t'))
        \<longleftrightarrow> decimal_value (distance t) \<le> decimal_value (distance t'))"
    if "scanned t" "scanned t'" for t t'
    using that
    by (simp add: scanned_def one_decimal_number_le_iff)
  have empty: "analyze st = st\<lparr>logArea := logArea st @ [[Str ''No data to analyze.'']]\<rparr>"
    if "targets st = []"
    using that by (simp add: analyze_effect [of st])
  have full: "analyze st =
      st\<lparr>logArea := logArea st @
        [[Str ''Analysis complete: Fastest '',
          Num (Fin (rnd (Max (set (map (\<lambda>t. decimal_value (velocity t)) (targets st)))))),
          Str '' m/s, Closest '',
          Num (Fin (rnd (Min (set (map (\<lambda>t. decimal_value (distance t)) (targets st)))))),
          Str '' km.'']]\<rparr>"
    if ne: "targets st \<noteq> []" and sc: "list_all scanned (targets st)"
  proof -
    have v: "Math_max (map (\<lambda>t. StringToNumber (velocity t)) (targets st))
        = Fin (rnd (Max (set (map (\<lambda>t. decimal_value (velocity t)) (targets st)))))"
      unfolding scanned_numbers(1) [OF sc]
      using ne by (intro Math_max_rnd) (simp_all add: decimal_value_nonneg)
    have d: "Math_min (map (\<lambda>t. StringToNumber (distance t)) (targets st))
        = Fin (rnd (Min (set (map (\<lambda>t. decimal_value (distance t)) (targets st)))))"
      unfolding scanned_numbers(2) [OF sc]
      using ne by (intro Math_min_rnd) (simp_all add: decimal_value_nonneg)
    show ?thesis
      using ne by (simp add: analyze_effect [of st] v d)
  qed
  have "logArea (analyze st) = logArea st @ [[Str ''No data to analyze.'']]"
    if "targets st = []"
    by (subst empty [OF that]) simp
  moreover have "logArea (analyze st) =
      logArea st @
        [[Str ''Analysis complete: Fastest '',
          Num (Fin (rnd (Max (set (map (\<lambda>t. decimal_value (velocity t)) (targets st)))))),
          Str '' m/s, Closest '',
          Num (Fin (rnd (Min (set (map (\<lambda>t. decimal_value (distance t)) (targets st)))))),
          Str '' km.'']]"
    if "targets st \<noteq> []" "list_all scanned (targets st)"
    by (subst full [OF that]) simp
  moreover have "\<forall>t \<in> set (targets st). \<forall>t' \<in> set (targets st).
      (rnd (decimal_value (velocity t)) \<le> rnd (decimal_value (velocity t'))
        \<longleftrightarrow> decimal_value (velocity t) \<le> decimal_value (velocity t')) \<and>
      (rnd (decimal_value (distance t)) \<le> rnd (decimal_value (distance t'))
        \<longleftrightarrow> decimal_value (distance t) \<le> decimal_value (distance t'))"
    if "list_all scanned (targets st)"
    using that order by (simp add: list_all_iff)
  ultimately show ?thesis using empty full by blast
qed

theorem analyze_empty_and_extremes_witness:
  "logArea (analyze example_state) = [[Str ''No data to analyze.'']] \<and>
   analyze example_state = example_state\<lparr>logArea := [[Str ''No data to analyze.'']]\<rparr> \<and>
   map velocity (targets example_store) = [''10.0'', ''9.5''] \<and>
   map distance (targets example_store) = [''9.5'', ''120.0''] \<and>
   logArea (analyze example_store) =
     [[Str ''Analysis complete: Fastest '', Num (Fin 10), Str '' m/s, Closest '',
       Num (Fin (19 / 2)), Str '' km.'']] \<and>
   analyze example_store =
     example_store\<lparr>logArea :=
       [[Str ''Analysis complete: Fastest '', Num (Fin 10), Str '' m/s, Closest '',
         Num (Fin (19 / 2)), Str '' km.'']]\<rparr>"
proof -
  have e: "targets example_state = []" "logArea example_state = []"
    by (simp_all add: example_state_def)
  have s: "targets example_store \<noteq> []" "logArea example_store = []"
    by (simp_all add: example_store_def example_state_def)
  have v: "map (\<lambda>t. decimal_value (velocity t)) (targets example_store) = [10, 19 / 2]"
    and d: "map (\<lambda>t. decimal_value (distance t)) (targets example_store) = [19 / 2, 120]"
    by (simp_all add: example_store_def example_state_def decimal_value_def int_part_def
        point_part_def digits_value_def digit_value_def)
  have r: "rnd 10 = 10" "rnd (19 / 2) = 19 / 2"
    using rnd_fix [of 10 0] rnd_fix [of 19 1] by simp_all
  have strings: "map velocity (targets example_store) = [''10.0'', ''9.5'']"
    "map distance (targets example_store) = [''9.5'', ''120.0'']"
    by (simp_all add: example_store_def example_state_def)
  have "logArea (analyze example_state) = [[Str ''No data to analyze.'']]"
    and "analyze example_state = example_state\<lparr>logArea := [[Str ''No data to analyze.'']]\<rparr>"
    using analyze_empty_and_extremes [of example_state] by (simp_all add: e)
  moreover have "logArea (analyze example_store) =
      [[Str ''Analysis complete: Fastest '', Num (Fin 10), Str '' m/s, Closest '',
        Num (Fin (19 / 2)), Str '' km.'']]"
    and "analyze example_store =
      example_store\<lparr>logArea :=
        [[Str ''Analysis complete: Fastest '', Num (Fin 10), Str '' m/s, Closest '',
          Num (Fin (19 / 2)), Str '' km.'']]\<rparr>"
    using analyze_empty_and_extremes [of example_store] example_store_scanned
    by (simp_all add: s v d r)
  ultimately show ?thesis using strings by blast
qed

text \<open>
  C4. \<^verbatim>\<open>executeCommand\<close> lowers the case of the input and compares the result with the
  four command words. An input whose lower-case form is \<^verbatim>\<open>scan\<close>, \<^verbatim>\<open>report\<close>,
  \<^verbatim>\<open>analyze\<close> or \<^verbatim>\<open>clear\<close> runs that action, with the effect on the page that tells
  it from the others, and shows no help. Every other input shows the help and does
  nothing else: one alert with the six lines of the help text, the targets and the log
  area as they were. So \<^verbatim>\<open>SCAN\<close> does what \<^verbatim>\<open>scan\<close> does and \<^verbatim>\<open>xyz\<close> shows the help;
  an input with an argument, with a space around the word, or with only a part of the
  word shows the help too.
\<close>

theorem executeCommand_dispatch:
  "(toLowerCase input = ''scan'' \<longrightarrow>
      executeCommand input st = scan st \<and>
      8 \<le> length (targets (executeCommand input st)) \<and>
      last (logArea (executeCommand input st))
        = [Str (nat_to_string (length (targets (executeCommand input st))) @ '' targets detected.'')] \<and>
      alerts (executeCommand input st) = alerts st) \<and>
   (toLowerCase input = ''report'' \<longrightarrow>
      executeCommand input st = generateReport st \<and>
      logArea (executeCommand input st)
        = logArea st @ [[Str (if targets st = [] then ''No targets to report.''
                              else ''Report downloaded as radar_report.csv'')]] \<and>
      alerts (executeCommand input st) = alerts st) \<and>
   (toLowerCase input = ''analyze'' \<longrightarrow>
      executeCommand input st = analyze st \<and>
      butlast (logArea (executeCommand input st)) = logArea st \<and>
      hd (last (logArea (executeCommand input st)))
        = Str (if targets st = [] then ''No data to analyze.'' else ''Analysis complete: Fastest '') \<and>
      alerts (executeCommand input st) = alerts st) \<and>
   (toLowerCase input = ''clear'' \<longrightarrow>
      executeCommand input st = clearLogs st \<and>
      targets (executeCommand input st) = [] \<and>
      logArea (executeCommand input st) = [[Str ''System reset.'']] \<and>
      alerts (executeCommand input st) = alerts st) \<and>
   (toLowerCase input \<notin> {''scan'', ''report'', ''analyze'', ''clear''} \<longrightarrow>
      executeCommand input st = st\<lparr>alerts := alerts st @ [help_text]\<rparr> \<and>
      alerts (executeCommand input st) = alerts st @ [help_text] \<and>
      logArea (executeCommand input st) = logArea st \<and>
      targets (executeCommand input st) = targets st) \<and>
   lines_of help_text =
     [''Available commands:'', ''scan - detect targets'', ''report - download target data'',
      ''analyze - run analytics'', ''clear - reset logs'', ''help - show this message''] \<and>
   executeCommand ''SCAN'' st = scan st \<and>
   executeCommand ''SCAN'' st = executeCommand ''scan'' st \<and>
   alerts (executeCommand ''SCAN'' st) = alerts st \<and>
   alerts (executeCommand ''xyz'' st) = alerts st @ [help_text] \<and>
   alerts (executeCommand ''scan 5'' st) = alerts st @ [help_text] \<and>
   alerts (executeCommand ''scan '' st) = alerts st @ [help_text] \<and>
   alerts (executeCommand ''sca'' st) = alerts st @ [help_text] \<and>
   targets (executeCommand ''scan 5'' st) = targets st"
proof -
  have scan_case: "executeCommand input st = scan st"
    "8 \<le> length (targets (executeCommand input st))"
    "last (logArea (executeCommand input st))
      = [Str (nat_to_string (length (targets (executeCommand input st))) @ '' targets detected.'')]"
    "alerts (executeCommand input st) = alerts st"
    if "toLowerCase input = ''scan''"
    using that scan_length(1) [of st] scan_last_log [of st] scan_alerts [of st]
    by (simp_all add: executeCommand_cases)
  have report_case: "executeCommand input st = generateReport st"
    "logArea (executeCommand input st)
      = logArea st @ [[Str (if targets st = [] then ''No targets to report.''
                            else ''Report downloaded as radar_report.csv'')]]"
    "alerts (executeCommand input st) = alerts st"
    if "toLowerCase input = ''report''"
    using that generateReport_effect [of st]
    by (cases "targets st = []"; simp add: executeCommand_cases)+
  have analyze_case: "executeCommand input st = analyze st"
    "butlast (logArea (executeCommand input st)) = logArea st"
    "hd (last (logArea (executeCommand input st)))
      = Str (if targets st = [] then ''No data to analyze.'' else ''Analysis complete: Fastest '')"
    "alerts (executeCommand input st) = alerts st"
    if "toLowerCase input = ''analyze''"
    using that by (simp_all add: executeCommand_cases analyze_effect [of st])
  have clear_case: "executeCommand input st = clearLogs st"
    "targets (executeCommand input st) = []"
    "logArea (executeCommand input st) = [[Str ''System reset.'']]"
    "alerts (executeCommand input st) = alerts st"
    if "toLowerCase input = ''clear''"
    using that by (simp_all add: executeCommand_cases clearLogs_targets clearLogs_effect)
  have help_case: "executeCommand input st = st\<lparr>alerts := alerts st @ [help_text]\<rparr>"
    "alerts (executeCommand input st) = alerts st @ [help_text]"
    "logArea (executeCommand input st) = logArea st"
    "targets (executeCommand input st) = targets st"
    if "toLowerCase input \<notin> {''scan'', ''report'', ''analyze'', ''clear''}"
    using that by (simp_all add: executeCommand_cases showHelp_def)
  have examples: "executeCommand ''SCAN'' st = scan st"
    "executeCommand ''SCAN'' st = executeCommand ''scan'' st"
    "alerts (executeCommand ''SCAN'' st) = alerts st"
    "alerts (executeCommand ''xyz'' st) = alerts st @ [help_text]"
    "alerts (executeCommand ''scan 5'' st) = alerts st @ [help_text]"
    "alerts (executeCommand ''scan '' st) = alerts st @ [help_text]"
    "alerts (executeCommand ''sca'' st) = alerts st @ [help_text]"
    "targets (executeCommand ''scan 5'' st) = targets st"
    by (simp_all add: executeCommand_cases toLowerCase_eq_iff lower_char_code showHelp_def
        scan_alerts)
  show ?thesis
    by (intro conjI impI;
        (erule scan_case report_case analyze_case clear_case help_case
          | rule examples lines_of_help_text))
qed

theorem executeCommand_dispatch_witness:
  "executeCommand ''Scan'' example_store = scan example_store \<and>
   alerts (executeCommand ''Scan'' example_store) = [] \<and>
   executeCommand ''REPORT'' example_store = generateReport example_store \<and>
   logArea (executeCommand ''REPORT'' example_store)
     = [[Str ''Report downloaded as radar_report.csv'']] \<and>
   logArea (executeCommand ''REPORT'' example_state) = [[Str ''No targets to report.'']] \<and>
   executeCommand ''analyze'' example_store = analyze example_store \<and>
   hd (last (logArea (executeCommand ''analyze'' example_store)))
     = Str ''Analysis complete: Fastest '' \<and>
   executeCommand ''cLeAr'' example_store = clearLogs example_store \<and>
   targets (executeCommand ''cLeAr'' example_store) = [] \<and>
   alerts (executeCommand ''help'' example_store) = [help_text] \<and>
   logArea (executeCommand ''help'' example_store) = [] \<and>
   alerts (executeCommand ''reports'' example_store) = [help_text] \<and>
   alerts (executeCommand [] example_store) = [help_text]"
proof -
  have e: "targets example_state = []" "logArea example_state = []" "alerts example_state = []"
    by (simp_all add: example_state_def)
  have s: "targets example_store \<noteq> []" "logArea example_store = []" "alerts example_store = []"
    by (simp_all add: example_store_def example_state_def)
  have low: "toLowerCase ''Scan'' = ''scan''" "toLowerCase ''REPORT'' = ''report''"
    "toLowerCase ''analyze'' = ''analyze''" "toLowerCase ''cLeAr'' = ''clear''"
    by (simp_all add: toLowerCase_eq_iff lower_char_code)
  have other: "toLowerCase ''help'' \<notin> {''scan'', ''report'', ''analyze'', ''clear''}"
    "toLowerCase ''reports'' \<notin> {''scan'', ''report'', ''analyze'', ''clear''}"
    "toLowerCase [] \<notin> {''scan'', ''report'', ''analyze'', ''clear''}"
    by (simp_all add: toLowerCase_eq_iff lower_char_code)
  note scan_i = executeCommand_dispatch [of "''Scan''" example_store,
      THEN conjunct1, rule_format, OF low(1)]
  note report_i = executeCommand_dispatch [of "''REPORT''" example_store,
      THEN conjunct2, THEN conjunct1, rule_format, OF low(2)]
  note report_e = executeCommand_dispatch [of "''REPORT''" example_state,
      THEN conjunct2, THEN conjunct1, rule_format, OF low(2)]
  note analyze_i = executeCommand_dispatch [of "''analyze''" example_store,
      THEN conjunct2, THEN conjunct2, THEN conjunct1, rule_format, OF low(3)]
  note clear_i = executeCommand_dispatch [of "''cLeAr''" example_store,
      THEN conjunct2, THEN conjunct2, THEN conjunct2, THEN conjunct1, rule_format, OF low(4)]
  note help_i = executeCommand_dispatch [of "''help''" example_store,
      THEN conjunct2, THEN conjunct2, THEN conjunct2, THEN conjunct2, THEN conjunct1,
      rule_format, OF other(1)]
  note reports_i = executeCommand_dispatch [of "''reports''" example_store,
      THEN conjunct2, THEN conjunct2, THEN conjunct2, THEN conjunct2, THEN conjunct1,
      rule_format, OF other(2)]
  note empty_i = executeCommand_dispatch [of "[]" example_store,
      THEN conjunct2, THEN conjunct2, THEN conjunct2, THEN conjunct2, THEN conjunct1,
      rule_format, OF other(3)]
  have "executeCommand ''Scan'' example_store = scan example_store"
    by (rule scan_i [THEN conjunct1])
  moreover have "alerts (executeCommand ''Scan'' example_store) = []"
    by (simp only: scan_i [THEN conjunct2, THEN conjunct2, THEN conjunct2] s(3))
  moreover have "executeCommand ''REPORT'' example_store = generateReport example_store"
    by (rule report_i [THEN conjunct1])
  moreover have "logArea (executeCommand ''REPORT'' example_store)
      = [[Str ''Report downloaded as radar_report.csv'']]"
    by (simp only: report_i [THEN conjunct2, THEN conjunct1] s(1,2) if_False append_Nil)
  moreover have "logArea (executeCommand ''REPORT'' example_state)
      = [[Str ''No targets to report.'']]"
    by (simp only: report_e [THEN conjunct2, THEN conjunct1] e(1,2) if_True append_Nil simp_thms)
  moreover have "executeCommand ''analyze'' example_store = analyze example_store"
    by (rule analyze_i [THEN conjunct1])
  moreover have "hd (last (logArea (executeCommand ''analyze'' example_store)))
      = Str ''Analysis complete: Fastest ''"
    by (simp only: analyze_i [THEN conjunct2, THEN conjunct2, THEN conjunct1] s(1) if_False)
  moreover have "executeCommand ''cLeAr'' example_store = clearLogs example_store"
    by (rule clear_i [THEN conjunct1])
  moreover have "targets (executeCommand ''cLeAr'' example_store) = []"
    by (rule clear_i [THEN conjunct2, THEN conjunct1])
  moreover have "alerts (executeCommand ''help'' example_store) = [help_text]"
    by (simp only: help_i [THEN conjunct2, THEN conjunct1] s(3) append_Nil)
  moreover have "logArea (executeCommand ''help'' example_store) = []"
    by (simp only: help_i [THEN conjunct2, THEN conjunct2, THEN conjunct1] s(2))
  moreover have "alerts (executeCommand ''reports'' example_store) = [help_text]"
    by (simp only: reports_i [THEN conjunct2, THEN conjunct1] s(3) append_Nil)
  moreover have "alerts (executeCommand [] example_store) = [help_text]"
    by (simp only: empty_i [THEN conjunct2, THEN conjunct1] s(3) append_Nil)
  ultimately show ?thesis by blast
qed

text \<open>
  C5. The sweep that \<^verbatim>\<open>animateRadar\<close> starts has the angle 0 at first. Each tick draws
  the line at the current angle and adds 3 to the angle; the tick that takes the angle
  to 360, the 120th, clears the timer. After \<open>n \<le> 120\<close> ticks the angle is \<open>3 n\<close> and the
  canvas has been redrawn \<open>n\<close> times, the last time with the line at \<open>3 (n - 1)\<close>; the timer
  is cleared exactly when \<open>n = 120\<close>, and from then on nothing changes any more. Commands
  and the ticks of other sweeps in between do not matter: among any events, the angle
  is 3 times the number of ticks of this timer, up to 120 of them.
\<close>

theorem sweep_stops_after_120_ticks:
  "(n \<le> 120 \<longrightarrow>
      timers ((sweep_tick (length (timers st)) ^^ n) (animateRadar st))
        = timers st @ [\<lparr>angle = 3 * n, radius = 230, cleared = (n = 120)\<rparr>] \<and>
      redraws ((sweep_tick (length (timers st)) ^^ n) (animateRadar st)) = redraws st + n \<and>
      (0 < n \<longrightarrow> canvas ((sweep_tick (length (timers st)) ^^ n) (animateRadar st))
         = Sweep_line 230 (3 * (n - 1)))) \<and>
   (120 \<le> n \<longrightarrow>
      (sweep_tick (length (timers st)) ^^ n) (animateRadar st)
        = (sweep_tick (length (timers st)) ^^ 120) (animateRadar st) \<and>
      redraws ((sweep_tick (length (timers st)) ^^ n) (animateRadar st)) = redraws st + 120) \<and>
   timers (foldl step (animateRadar st) es) ! length (timers st)
     = \<lparr>angle = 3 * min (count_list es (Tick (length (timers st)))) 120, radius = 230,
        cleared = (120 \<le> count_list es (Tick (length (timers st))))\<rparr>"
proof -
  have "redraws ((sweep_tick (length (timers st)) ^^ n) (animateRadar st)) = redraws st + 120"
    if "120 \<le> n"
    using sweep_stopped [OF that, of st] sweep_run [of 120 st] by simp
  then show ?thesis
    using sweep_run [of n st] sweep_stopped [of n st] sweep_among_events [of st es] by blast
qed

theorem sweep_stops_after_120_ticks_witness:
  "timers ((sweep_tick 0 ^^ 0) (animateRadar example_state))
     = [\<lparr>angle = 0, radius = 230, cleared = False\<rparr>] \<and>
   timers ((sweep_tick 0 ^^ 119) (animateRadar example_state))
     = [\<lparr>angle = 357, radius = 230, cleared = False\<rparr>] \<and>
   canvas ((sweep_tick 0 ^^ 119) (animateRadar example_state)) = Sweep_line 230 354 \<and>
   timers ((sweep_tick 0 ^^ 120) (animateRadar example_state))
     = [\<lparr>angle = 360, radius = 230, cleared = True\<rparr>] \<and>
   canvas ((sweep_tick 0 ^^ 120) (animateRadar example_state)) = Sweep_line 230 357 \<and>
   redraws ((sweep_tick 0 ^^ 120) (animateRadar example_state)) = 120 \<and>
   redraws ((sweep_tick 0 ^^ 500) (animateRadar example_state)) = 120 \<and>
   timers (foldl step (animateRadar example_state)
       [Tick 0, Command ''scan'', Tick 1, Tick 0, Command ''help'', Tick 0]) ! 0
     = \<lparr>angle = 9, radius = 230, cleared = False\<rparr>"
proof -
  have t: "timers example_state = []" "redraws example_state = 0"
    by (simp_all add: example_state_def)
  show ?thesis
    using sweep_stops_after_120_ticks [of 0 example_state]
      sweep_stops_after_120_ticks [of 119 example_state]
      sweep_stops_after_120_ticks [of 120 example_state]
      sweep_stops_after_120_ticks [of 500 example_state
        "[Tick 0, Command ''scan'', Tick 1, Tick 0, Command ''help'', Tick 0]"]
    unfolding t by simp
qed

text \<open>
  C6. \<^verbatim>\<open>clearLogs\<close> empties the target list, and \<^verbatim>\<open>analyze\<close> right after it only logs
  its notice. The same holds after any further events that are not a scan (commands
  other than \<^verbatim>\<open>scan\<close>, ticks of the sweep timers): the list is still empty, and
  \<^verbatim>\<open>analyze\<close> only logs its notice.
\<close>

theorem clear_then_analyze:
  "targets (clearLogs st) = [] \<and>
   analyze (clearLogs st) = log' [Str ''No data to analyze.''] (clearLogs st) \<and>
   logArea (analyze (clearLogs st)) = [[Str ''System reset.''], [Str ''No data to analyze.'']] \<and>
   (list_all (\<lambda>e. \<not> is_scan e) es \<longrightarrow>
      targets (foldl step (clearLogs st) es) = [] \<and>
      analyze (foldl step (clearLogs st) es)
        = log' [Str ''No data to analyze.''] (foldl step (clearLogs st) es))"
proof -
  have "analyze (clearLogs st) = log' [Str ''No data to analyze.''] (clearLogs st)"
    by (rule analyze_empty) (rule clearLogs_targets)
  moreover have "logArea (clearLogs st) = [[Str ''System reset.'']]"
    by (simp add: clearLogs_def Let_def)
  moreover have "targets (foldl step (clearLogs st) es) = []"
    if "list_all (\<lambda>e. \<not> is_scan e) es"
    using that by (rule steps_keep_empty) (rule clearLogs_targets)
  ultimately show ?thesis
    by (simp add: clearLogs_targets analyze_empty)
qed

theorem clear_then_analyze_witness:
  "targets example_store \<noteq> [] \<and>
   targets (clearLogs example_store) = [] \<and>
   logArea (analyze (clearLogs example_store))
     = [[Str ''System reset.''], [Str ''No data to analyze.'']] \<and>
   targets (foldl step (clearLogs example_store)
     [Command ''report'', Tick 0, Command ''Analyze'', Command ''what?'', Command ''CLEAR'']) = [] \<and>
   analyze (foldl step (clearLogs example_store)
     [Command ''report'', Tick 0, Command ''Analyze'', Command ''what?'', Command ''CLEAR''])
     = log' [Str ''No data to analyze.''] (foldl step (clearLogs example_store)
     [Command ''report'', Tick 0, Command ''Analyze'', Command ''what?'', Command ''CLEAR''])"
proof -
  have "list_all (\<lambda>e. \<not> is_scan e)
      [Command ''report'', Tick 0, Command ''Analyze'', Command ''what?'', Command ''CLEAR'']"
    by (simp add: is_scan_def toLowerCase_eq_iff lower_char_code)
  moreover have "targets example_store \<noteq> []"
    by (simp add: example_store_def example_state_def)
  ultimately show ?thesis
    using clear_then_analyze [of example_store
        "[Command ''report'', Tick 0, Command ''Analyze'', Command ''what?'', Command ''CLEAR'']"]
    by blast
qed


text \<open>
  C8. \<^verbatim>\<open>updateSystemStatus\<close>, which every \<^verbatim>\<open>scan\<close> runs, writes the number of targets;
  a wind speed with one decimal (between 10 and 30) followed by \<^verbatim>\<open> km/h\<close>; one of the
  three weather names; a CPU load with one decimal between 30 and 90 followed by
  \<^verbatim>\<open>%\<close>; and a temperature with one decimal between 25 and 35 followed by the degree
  sign and \<^verbatim>\<open>C\<close>. The weather name is a function of one random Number \<open>r\<close>: it is
  \<^verbatim>\<open>Clear\<close> on the first third of the unit interval, \<^verbatim>\<open>Cloudy\<close> on the second and
  \<^verbatim>\<open>Rainy\<close> on the last (the two cut points lie within one rounding step of 1/3 and
  2/3), so a uniform \<open>r\<close> makes the three names equally likely.
\<close>

theorem status_display:
  "activeTargets (updateSystemStatus st) = nat_to_string (length (targets st)) \<and>
   shows_one_decimal (wind (updateSystemStatus st)) '' km/h'' 10 30 \<and>
   weather (updateSystemStatus st) \<in> {''Clear'', ''Cloudy'', ''Rainy''} \<and>
   shows_one_decimal (cpuLoad (updateSystemStatus st)) ''%'' 30 90 \<and>
   shows_one_decimal (temperature (updateSystemStatus st)) [CHR 0xB0, CHR ''C''] 25 35 \<and>
   (Rep_unit_double (random_source st (random_calls st + 1)) \<le> 1 / 3 - 1 / (3 * 2 ^ 53) \<longrightarrow>
      weather (updateSystemStatus st) = ''Clear'') \<and>
   (1 / 3 \<le> Rep_unit_double (random_source st (random_calls st + 1)) \<and>
    Rep_unit_double (random_source st (random_calls st + 1)) \<le> 2 / 3 - 1 / (3 * 2 ^ 52) \<longrightarrow>
      weather (updateSystemStatus st) = ''Cloudy'') \<and>
   (2 / 3 \<le> Rep_unit_double (random_source st (random_calls st + 1)) \<longrightarrow>
      weather (updateSystemStatus st) = ''Rainy'') \<and>
   activeTargets (scan st) = nat_to_string (length (targets (scan st))) \<and>
   shows_one_decimal (wind (scan st)) '' km/h'' 10 30 \<and>
   weather (scan st) \<in> {''Clear'', ''Cloudy'', ''Rainy''} \<and>
   shows_one_decimal (cpuLoad (scan st)) ''%'' 30 90 \<and>
   shows_one_decimal (temperature (scan st)) [CHR 0xB0, CHR ''C''] 25 35"
proof -
  have status: "activeTargets (updateSystemStatus s) = nat_to_string (length (targets s)) \<and>
      shows_one_decimal (wind (updateSystemStatus s)) '' km/h'' 10 30 \<and>
      weather (updateSystemStatus s) \<in> {''Clear'', ''Cloudy'', ''Rainy''} \<and>
      shows_one_decimal (cpuLoad (updateSystemStatus s)) ''%'' 30 90 \<and>
      shows_one_decimal (temperature (updateSystemStatus s)) [CHR 0xB0, CHR ''C''] 25 35"
    for s
  proof -
    have "shows_one_decimal (wind (updateSystemStatus s)) '' km/h'' 10 30"
      using status_number [of 10 20 "random_source s (random_calls s)" "'' km/h''"]
      by (simp add: updateSystemStatus_fields)
    moreover have "shows_one_decimal (cpuLoad (updateSystemStatus s)) ''%'' 30 90"
      using status_number [of 30 60 "random_source s (random_calls s + 2)" "''%''"]
      by (simp add: updateSystemStatus_fields)
    moreover have "shows_one_decimal (temperature (updateSystemStatus s)) [CHR 0xB0, CHR ''C''] 25 35"
      using status_number [of 25 10 "random_source s (random_calls s + 3)" "[CHR 0xB0, CHR ''C'']"]
      by (simp add: updateSystemStatus_fields)
    moreover have "weather (updateSystemStatus s) \<in> {''Clear'', ''Cloudy'', ''Rainy''}"
      using floor_random_times_3 [of "random_source s (random_calls s + 1)"]
      by (simp add: updateSystemStatus_fields weather_index)
    ultimately show ?thesis by (simp add: updateSystemStatus_fields)
  qed
  define pre where "pre = animateRadar (updateTable (scan_loop 0
    ((log' [Str ''Scanning environment...''] st)\<lparr>targets := [], markerLayer := []\<rparr>)))"
  have sc: "scan st
      = log' [Str (nat_to_string (length (targets (updateSystemStatus pre))) @ '' targets detected.'')]
          (updateSystemStatus pre)"
    by (simp add: scan_def Let_def pre_def)
  have of_scan: "activeTargets (scan st) = activeTargets (updateSystemStatus pre)"
    "wind (scan st) = wind (updateSystemStatus pre)"
    "weather (scan st) = weather (updateSystemStatus pre)"
    "cpuLoad (scan st) = cpuLoad (updateSystemStatus pre)"
    "temperature (scan st) = temperature (updateSystemStatus pre)"
    "targets (scan st) = targets pre"
    by (simp_all add: sc)
  have bands: "Rep_unit_double (random_source st (random_calls st + 1)) \<le> 1 / 3 - 1 / (3 * 2 ^ 53)
      \<Longrightarrow> weather (updateSystemStatus st) = ''Clear''"
    "1 / 3 \<le> Rep_unit_double (random_source st (random_calls st + 1)) \<Longrightarrow>
      Rep_unit_double (random_source st (random_calls st + 1)) \<le> 2 / 3 - 1 / (3 * 2 ^ 52)
      \<Longrightarrow> weather (updateSystemStatus st) = ''Cloudy''"
    "2 / 3 \<le> Rep_unit_double (random_source st (random_calls st + 1))
      \<Longrightarrow> weather (updateSystemStatus st) = ''Rainy''"
    using floor_random_times_3_bands [of "random_source st (random_calls st + 1)"]
    by (simp_all add: updateSystemStatus_fields array_get_def)
  show ?thesis
    using status [of st] status [of pre] bands unfolding of_scan by blast
qed

theorem status_display_witness:
  "Rep_unit_double (random_source example_state (random_calls example_state + 1))
     = 5738167517493952 / 2 ^ 53 \<and>
   weather (updateSystemStatus example_state) = ''Cloudy'' \<and>
   activeTargets (updateSystemStatus example_store) = ''2'' \<and>
   shows_one_decimal (wind (updateSystemStatus example_state)) '' km/h'' 10 30 \<and>
   shows_one_decimal (cpuLoad (updateSystemStatus example_state)) ''%'' 30 90 \<and>
   shows_one_decimal (temperature (updateSystemStatus example_state)) [CHR 0xB0, CHR ''C''] 25 35 \<and>
   shows_one_decimal (cpuLoad (scan example_state)) ''%'' 30 90"
proof -
  have r: "Rep_unit_double (random_source example_state (random_calls example_state + 1))
      = 5738167517493952 / 2 ^ 53"
    by (simp add: example_state_def unit_double_of_bits.rep_eq bits_value_def)
  have two: "nat_to_string (length (targets example_store)) = ''2''"
    by (simp add: example_store_def example_state_def nat_to_string.simps digit_char_def
        char_of_eq_iff)
  show ?thesis
    using status_display [of example_state] status_display [of example_store]
    unfolding r two by simp
qed

end
